theory Spec2Isabelle
  imports Complex_Main "HOL-Library.Monad_Syntax"
begin

unbundle bit_operations_syntax

section \<open>The fluid simulation of the portfolio's blog widget\<close>

text \<open>
  The solver module of the interactive 8 x 8 fluid demo: \<^verbatim>\<open>CalculatePressure\<close>,
  \<^verbatim>\<open>SolvePressureRedBlack\<close>, \<^verbatim>\<open>CalculateVelocities\<close>, the two bilinear samplers
  \<^verbatim>\<open>GetVelocityXAtLocalPos\<close> and \<^verbatim>\<open>GetVelocityYAtLocalPos\<close>, and
  \<^verbatim>\<open>AdvectVelocities\<close>. The sources hold two variants of the module; this is the one
  with the local-position samplers and clamped indices (lines 247 to 471 of
  \<^verbatim>\<open>src/config/site.ts\<close>), which the specification takes as canonical. The pressure
  and projection functions are the same in both.

  Modelling decisions.
  \<^item> A JavaScript number is a \<^typ>\<open>real\<close>: arithmetic is exact, there is no rounding,
    no NaN and no infinity. Indices are \<^typ>\<open>int\<close>s (\<^verbatim>\<open>col - 1\<close> may be negative).
    The reals describe the doubles of the code, up to rounding, as long as no operation
    overflows; a theorem about a sign, a zero or the absence of a fault states a bound on
    the magnitudes that keeps every operation in range. What the code does beyond such a
    bound is shown on a second model, whose numbers overflow to infinities and \<^verbatim>\<open>NaN\<close>.
  \<^item> A two-dimensional array is a list of rows, each a list of numbers. The functions
    of the solver receive arrays by reference and mutate them in place, so arrays live
    in a store that maps references to their contents, and every function takes the
    references it is called with and returns the updated store. Two parameters may
    name the same array. A two-dimensional array is one object of the store: it owns
    its rows, and rows are not shared between arrays.
  \<^item> Reading \<^verbatim>\<open>a[i][j]\<close> outside the array yields \<^verbatim>\<open>undefined\<close> or throws a
    \<^verbatim>\<open>TypeError\<close>, and a write outside would resize a row or throw. Both leave the
    model: every access returns an \<^typ>\<open>'a option\<close>, with \<^term>\<open>None\<close> for an access out
    of range, and \<^term>\<open>None\<close> propagates as the exception would.
  \<^item> A \<^verbatim>\<open>for\<close> loop over a fixed index range is \<open>for_each\<close> over the list of its
    index values.
  \<^item> \<^verbatim>\<open>console.log\<close> and the redrawing of the SVG arrows at the end of
    \<^verbatim>\<open>CalculateVelocities\<close> do not touch the arrays and are left out.
\<close>

subsection \<open>Arrays and the store\<close>

type_synonym grid = "real list list"
type_synonym ref = nat
type_synonym store = "ref \<Rightarrow> grid"

definition rd :: "'a list list \<Rightarrow> int \<Rightarrow> int \<Rightarrow> 'a option" where
  "rd a i j =
     (if 0 \<le> i \<and> i < int (length a) \<and> 0 \<le> j \<and> j < int (length (a ! nat i))
      then Some (a ! nat i ! nat j) else None)"

definition wr :: "'a list list \<Rightarrow> int \<Rightarrow> int \<Rightarrow> 'a \<Rightarrow> 'a list list option" where
  "wr a i j v =
     (if 0 \<le> i \<and> i < int (length a) \<and> 0 \<le> j \<and> j < int (length (a ! nat i))
      then Some (a[nat i := (a ! nat i)[nat j := v]]) else None)"

definition load :: "(ref \<Rightarrow> 'a list list) \<Rightarrow> ref \<Rightarrow> int \<Rightarrow> int \<Rightarrow> 'a option" where
  "load s r i j = rd (s r) i j"

definition save :: "(ref \<Rightarrow> 'a list list) \<Rightarrow> ref \<Rightarrow> int \<Rightarrow> int \<Rightarrow> 'a \<Rightarrow> (ref \<Rightarrow> 'a list list) option" where
  "save s r i j v = (case wr (s r) i j v of None \<Rightarrow> None | Some a \<Rightarrow> Some (s(r := a)))"

text \<open>A \<^verbatim>\<open>for\<close> loop over the listed index values, left to right; a failing body ends it.\<close>

fun for_each :: "'i list \<Rightarrow> ('i \<Rightarrow> 's \<Rightarrow> 's option) \<Rightarrow> 's \<Rightarrow> 's option" where
  "for_each [] body s = Some s"
| "for_each (i # is) body s =
     (case body i s of None \<Rightarrow> None | Some s' \<Rightarrow> for_each is body s')"

subsection \<open>Constants\<close>

definition gridSize :: int where "gridSize = 8"
definition DENSITY :: real where "DENSITY = 0.6"
definition DELTA_X :: real where "DELTA_X = 1.0"
definition DELTA_TIME :: real where "DELTA_TIME = 0.016"

subsection \<open>Pressure\<close>

definition CalculatePressure :: "ref \<Rightarrow> ref \<Rightarrow> ref \<Rightarrow> int \<Rightarrow> int \<Rightarrow> store \<Rightarrow> store option" where
  "CalculatePressure cellValues horizontalArrows verticalArrows row col s = do {
     let xEdge = (col = 0 \<or> col = 7);
     let yEdge = (row = 0 \<or> row = 7);
     pLeft \<leftarrow> (if xEdge then Some 0 else load s cellValues row (col - 1));
     pRight \<leftarrow> (if xEdge then Some 0 else load s cellValues row (col + 1));
     pUp \<leftarrow> (if yEdge then Some 0 else load s cellValues (row - 1) col);
     pDown \<leftarrow> (if yEdge then Some 0 else load s cellValues (row + 1) col);
     vLeft \<leftarrow> load s horizontalArrows row col;
     vRight \<leftarrow> (if col = 7 then Some 0 else load s horizontalArrows row (col + 1));
     vUp \<leftarrow> load s verticalArrows row col;
     vDown \<leftarrow> (if row = 7 then Some 0 else load s verticalArrows (row + 1) col);
     let pressure = pLeft + pRight + pUp + pDown;
     let velocity = vRight - vLeft + vDown - vUp;
     save s cellValues row col ((pressure - DENSITY * DELTA_X * velocity / DELTA_TIME) / 4)
   }"

definition SolvePressureRedBlack :: "ref \<Rightarrow> ref \<Rightarrow> ref \<Rightarrow> store \<Rightarrow> store option" where
  "SolvePressureRedBlack cellValues horizontalArrows verticalArrows s0 = do {
     s1 \<leftarrow> for_each [0..gridSize - 1] (\<lambda>row.
             for_each [0..gridSize - 1] (\<lambda>col s.
               if (row + col) AND 1 = 0
               then CalculatePressure cellValues horizontalArrows verticalArrows row col s
               else Some s)) s0;
     for_each [0..gridSize - 1] (\<lambda>row.
       for_each [0..gridSize - 1] (\<lambda>col s.
         if (row + col) AND 1 = 1
         then CalculatePressure cellValues horizontalArrows verticalArrows row col s
         else Some s)) s1
   }"

subsection \<open>Velocity\<close>

definition CalculateVelocities :: "ref \<Rightarrow> ref \<Rightarrow> ref \<Rightarrow> store \<Rightarrow> store option" where
  "CalculateVelocities cellValues horizontalArrows verticalArrows s0 = do {
     let k = DELTA_TIME / DENSITY;
     s1 \<leftarrow> for_each [0..gridSize] (\<lambda>row.
             for_each [0..gridSize - 1] (\<lambda>col s.
               if row = 0 \<or> row = 8
               then save s verticalArrows row col 0
               else do {
                 pCenter \<leftarrow> load s cellValues row col;
                 pUp \<leftarrow> load s cellValues (row - 1) col;
                 old \<leftarrow> load s verticalArrows row col;
                 save s verticalArrows row col (old - k * (pCenter - pUp))
               })) s0;
     for_each [0..gridSize - 1] (\<lambda>row.
       for_each [0..gridSize] (\<lambda>col s.
         if col = 0 \<or> col = 8
         then save s horizontalArrows row col 0
         else do {
           pCenter \<leftarrow> load s cellValues row col;
           pLeft \<leftarrow> load s cellValues row (col - 1);
           old \<leftarrow> load s horizontalArrows row col;
           save s horizontalArrows row col (old - k * (pCenter - pLeft))
         })) s1
   }"

subsection \<open>Advection\<close>

definition lerp :: "real \<Rightarrow> real \<Rightarrow> real \<Rightarrow> real" where
  "lerp a b t = a + (b - a) * t"

text \<open>
  The index computation of \<^verbatim>\<open>GetVelocityXAtLocalPos\<close> (floor, neighbour, clamp), giving
  \<open>(left, right, bottom, top)\<close> as they stand when the array is read.
\<close>

definition GetVelocityXAtLocalPos_indices :: "real \<times> real \<Rightarrow> int \<times> int \<times> int \<times> int" where
  "GetVelocityXAtLocalPos_indices localPos =
     (let px = fst localPos;
          py = snd localPos - 0.5;
          left = \<lfloor>px\<rfloor>;
          right = left + 1;
          bottom = \<lfloor>py\<rfloor>;
          top = bottom + 1;
          left = max 0 (min 8 left);
          right = max 0 (min 8 right);
          bottom = max 0 (min 7 bottom);
          top = max 0 (min 7 top)
      in (left, right, bottom, top))"

definition GetVelocityXAtLocalPos :: "real \<times> real \<Rightarrow> ref \<Rightarrow> store \<Rightarrow> real option" where
  "GetVelocityXAtLocalPos localPos horizontalArrows s =
     (let px = fst localPos;
          py = snd localPos - 0.5;
          (left, right, bottom, top) = GetVelocityXAtLocalPos_indices localPos;
          xFrac = px - of_int \<lfloor>px\<rfloor>;
          yFrac = py - of_int \<lfloor>py\<rfloor>
      in do {
        tl \<leftarrow> load s horizontalArrows top left;
        tr \<leftarrow> load s horizontalArrows top right;
        let valueTop = lerp tl tr xFrac;
        bl \<leftarrow> load s horizontalArrows bottom left;
        br \<leftarrow> load s horizontalArrows bottom right;
        let valueBottom = lerp bl br xFrac;
        Some (lerp valueBottom valueTop yFrac)
      })"

definition GetVelocityYAtLocalPos_indices :: "real \<times> real \<Rightarrow> int \<times> int \<times> int \<times> int" where
  "GetVelocityYAtLocalPos_indices localPos =
     (let px = fst localPos - 0.5;
          py = snd localPos;
          left = \<lfloor>px\<rfloor>;
          right = left + 1;
          bottom = \<lfloor>py\<rfloor>;
          top = bottom + 1;
          left = max 0 (min 7 left);
          right = max 0 (min 7 right);
          bottom = max 0 (min 8 bottom);
          top = max 0 (min 8 top)
      in (left, right, bottom, top))"

definition GetVelocityYAtLocalPos :: "real \<times> real \<Rightarrow> ref \<Rightarrow> store \<Rightarrow> real option" where
  "GetVelocityYAtLocalPos localPos verticalArrows s =
     (let px = fst localPos - 0.5;
          py = snd localPos;
          (left, right, bottom, top) = GetVelocityYAtLocalPos_indices localPos;
          xFrac = px - of_int \<lfloor>px\<rfloor>;
          yFrac = py - of_int \<lfloor>py\<rfloor>
      in do {
        tl \<leftarrow> load s verticalArrows top left;
        tr \<leftarrow> load s verticalArrows top right;
        let valueTop = lerp tl tr xFrac;
        bl \<leftarrow> load s verticalArrows bottom left;
        br \<leftarrow> load s verticalArrows bottom right;
        let valueBottom = lerp bl br xFrac;
        Some (lerp valueBottom valueTop yFrac)
      })"

definition AdvectVelocities :: "ref \<Rightarrow> ref \<Rightarrow> ref \<Rightarrow> ref \<Rightarrow> store \<Rightarrow> store option" where
  "AdvectVelocities horizontalArrows horizontalArrowsTemp verticalArrows verticalArrowsTemp s0 = do {
     s1 \<leftarrow> for_each [0..gridSize] (\<lambda>row.
             for_each [0..gridSize - 1] (\<lambda>col s. do {
               let pos = (of_int col + 0.5, of_int row);
               velX \<leftarrow> GetVelocityXAtLocalPos pos horizontalArrows s;
               velY \<leftarrow> GetVelocityYAtLocalPos pos verticalArrows s;
               let pos = (fst pos - DELTA_TIME * velX, snd pos - DELTA_TIME * velY);
               newVel \<leftarrow> GetVelocityYAtLocalPos pos verticalArrows s;
               save s verticalArrowsTemp row col newVel
             })) s0;
     s2 \<leftarrow> for_each [0..gridSize - 1] (\<lambda>row.
             for_each [0..gridSize] (\<lambda>col s. do {
               let pos = (of_int col, of_int row + 0.5);
               velX \<leftarrow> GetVelocityXAtLocalPos pos horizontalArrows s;
               velY \<leftarrow> GetVelocityYAtLocalPos pos verticalArrows s;
               let pos = (fst pos - DELTA_TIME * velX, snd pos - DELTA_TIME * velY);
               newVel \<leftarrow> GetVelocityXAtLocalPos pos horizontalArrows s;
               save s horizontalArrowsTemp row col newVel
             })) s1;
     s3 \<leftarrow> for_each [0..gridSize] (\<lambda>row.
             for_each [0..gridSize - 1] (\<lambda>col s. do {
               v \<leftarrow> load s verticalArrowsTemp row col;
               save s verticalArrows row col v
             })) s2;
     for_each [0..gridSize - 1] (\<lambda>row.
       for_each [0..gridSize] (\<lambda>col s. do {
         v \<leftarrow> load s horizontalArrowsTemp row col;
         save s horizontalArrows row col v
       })) s3
   }"

section \<open>Shapes, tables and the values the loops compute\<close>

text \<open>
  The arrays of the widget never change size: the pressure array is 8 x 8, the horizontal
  velocities are 8 x 9 and the vertical velocities 9 x 8. \<open>shape a m n\<close> says that
  \<open>a\<close> has \<open>m\<close> rows of \<open>n\<close> entries, \<open>cell a i j\<close> is the entry at an index
  known to be in range, and \<open>tab m n f\<close> is the array with entry \<open>f i j\<close> at \<open>(i, j)\<close>.
\<close>

definition shape :: "'a list list \<Rightarrow> nat \<Rightarrow> nat \<Rightarrow> bool" where
  "shape a m n \<longleftrightarrow> length a = m \<and> (\<forall>r \<in> set a. length r = n)"

definition cell :: "'a list list \<Rightarrow> int \<Rightarrow> int \<Rightarrow> 'a" where
  "cell a i j = a ! nat i ! nat j"

definition tab :: "nat \<Rightarrow> nat \<Rightarrow> (int \<Rightarrow> int \<Rightarrow> 'a) \<Rightarrow> 'a list list" where
  "tab m n f = map (\<lambda>i. map (\<lambda>j. f (int i) (int j)) [0..<n]) [0..<m]"

definition settled :: "(int \<Rightarrow> int \<Rightarrow> bool) \<Rightarrow> (int \<Rightarrow> int \<Rightarrow> 'a) \<Rightarrow> (int \<Rightarrow> int \<Rightarrow> 'a) \<Rightarrow> (int \<Rightarrow> int \<Rightarrow> 'a) \<Rightarrow> bool" where
  "settled g F orig f \<longleftrightarrow> (\<forall>i j. f i j = orig i j \<or> (g i j \<and> f i j = F i j))"

text \<open>
  The number that \<^verbatim>\<open>CalculatePressure\<close> stores at \<open>(row, col)\<close>, as a function of the
  pressure \<open>p\<close> and of the face velocities \<open>h\<close> and \<open>v\<close> it reads (lemma
  \<open>CalculatePressure_value\<close> below). The same flag guards both neighbours of an axis.
\<close>

definition stored_pressure ::
  "(int \<Rightarrow> int \<Rightarrow> real) \<Rightarrow> (int \<Rightarrow> int \<Rightarrow> real) \<Rightarrow> (int \<Rightarrow> int \<Rightarrow> real) \<Rightarrow> int \<Rightarrow> int \<Rightarrow> real" where
  "stored_pressure p h v row col =
     ((if col = 0 \<or> col = 7 then 0 else p row (col - 1)) +
      (if col = 0 \<or> col = 7 then 0 else p row (col + 1)) +
      (if row = 0 \<or> row = 7 then 0 else p (row - 1) col) +
      (if row = 0 \<or> row = 7 then 0 else p (row + 1) col) -
      DENSITY * DELTA_X *
        ((if col = 7 then 0 else h row (col + 1)) - h row col +
         (if row = 7 then 0 else v (row + 1) col) - v row col) / DELTA_TIME) / 4"

text \<open>
  Relaxing one colour class: every cell with \<open>(row + col) AND 1 = k\<close> gets its new value,
  all of them computed from the same pressure \<open>p\<close>; the other cells keep theirs.
\<close>

definition relax_class ::
  "int \<Rightarrow> (int \<Rightarrow> int \<Rightarrow> real) \<Rightarrow> (int \<Rightarrow> int \<Rightarrow> real) \<Rightarrow> (int \<Rightarrow> int \<Rightarrow> real) \<Rightarrow> int \<Rightarrow> int \<Rightarrow> real" where
  "relax_class k p h v i j = (if (i + j) AND 1 = k then stored_pressure p h v i j else p i j)"

text \<open>
  The values \<^verbatim>\<open>CalculateVelocities\<close> leaves in the two velocity arrays, from the
  pressure \<open>p\<close> and the old velocities.
\<close>

definition projectV :: "grid \<Rightarrow> grid \<Rightarrow> int \<Rightarrow> int \<Rightarrow> real" where
  "projectV p vv i j =
     (if i = 0 \<or> i = 8 then 0
      else cell vv i j - DELTA_TIME / DENSITY * (cell p i j - cell p (i - 1) j))"

definition projectH :: "grid \<Rightarrow> grid \<Rightarrow> int \<Rightarrow> int \<Rightarrow> real" where
  "projectH p hv i j =
     (if j = 0 \<or> j = 8 then 0
      else cell hv i j - DELTA_TIME / DENSITY * (cell p i j - cell p i (j - 1)))"

text \<open>
  The bilinear samplers on an array known to have the right shape, and the per-sample
  map of the advection step (section 4.3 of the specification): the position of the
  sample, the velocity sampled there, the backtracked position, and the advected field
  sampled at that position.
\<close>

definition sampleX :: "grid \<Rightarrow> real \<times> real \<Rightarrow> real" where
  "sampleX hv localPos =
     (let px = fst localPos;
          py = snd localPos - 0.5;
          (left, right, bottom, top) = GetVelocityXAtLocalPos_indices localPos;
          xFrac = px - of_int \<lfloor>px\<rfloor>;
          yFrac = py - of_int \<lfloor>py\<rfloor>
      in lerp (lerp (cell hv bottom left) (cell hv bottom right) xFrac)
              (lerp (cell hv top left) (cell hv top right) xFrac) yFrac)"

definition sampleY :: "grid \<Rightarrow> real \<times> real \<Rightarrow> real" where
  "sampleY vv localPos =
     (let px = fst localPos - 0.5;
          py = snd localPos;
          (left, right, bottom, top) = GetVelocityYAtLocalPos_indices localPos;
          xFrac = px - of_int \<lfloor>px\<rfloor>;
          yFrac = py - of_int \<lfloor>py\<rfloor>
      in lerp (lerp (cell vv bottom left) (cell vv bottom right) xFrac)
              (lerp (cell vv top left) (cell vv top right) xFrac) yFrac)"

definition backtrack :: "grid \<Rightarrow> grid \<Rightarrow> real \<times> real \<Rightarrow> real \<times> real" where
  "backtrack hv vv pos =
     (fst pos - DELTA_TIME * sampleX hv pos, snd pos - DELTA_TIME * sampleY vv pos)"

definition advect_vertical :: "grid \<Rightarrow> grid \<Rightarrow> int \<Rightarrow> int \<Rightarrow> real" where
  "advect_vertical hv vv row col = sampleY vv (backtrack hv vv (of_int col + 0.5, of_int row))"

definition advect_horizontal :: "grid \<Rightarrow> grid \<Rightarrow> int \<Rightarrow> int \<Rightarrow> real" where
  "advect_horizontal hv vv row col = sampleX hv (backtrack hv vv (of_int col, of_int row + 0.5))"

text \<open>
  \<open>all_cells g m n c\<close>: the array \<open>g\<close> has \<open>m\<close> rows of \<open>n\<close> entries and every entry is \<open>c\<close>
  (a spatially uniform field). \<open>advect_shapes\<close>: the four arrays \<^verbatim>\<open>AdvectVelocities\<close>
  is called with have the shapes of the widget. \<open>boundary_zero\<close>: every face velocity on
  the boundary of the grid is zero.
\<close>

definition all_cells :: "grid \<Rightarrow> nat \<Rightarrow> nat \<Rightarrow> real \<Rightarrow> bool" where
  "all_cells g m n c \<longleftrightarrow>
     shape g m n \<and> (\<forall>i j. 0 \<le> i \<and> i < int m \<and> 0 \<le> j \<and> j < int n \<longrightarrow> cell g i j = c)"

definition advect_shapes :: "ref \<Rightarrow> ref \<Rightarrow> ref \<Rightarrow> ref \<Rightarrow> store \<Rightarrow> bool" where
  "advect_shapes ha hT va vT s \<longleftrightarrow>
     shape (s ha) 8 9 \<and> shape (s hT) 8 9 \<and> shape (s va) 9 8 \<and> shape (s vT) 9 8"

definition boundary_zero :: "store \<Rightarrow> ref \<Rightarrow> ref \<Rightarrow> bool" where
  "boundary_zero s horizontalArrows verticalArrows \<longleftrightarrow>
     (\<forall>row \<in> {0..7}. load s horizontalArrows row 0 = Some 0 \<and> load s horizontalArrows row 8 = Some 0) \<and>
     (\<forall>col \<in> {0..7}. load s verticalArrows 0 col = Some 0 \<and> load s verticalArrows 8 col = Some 0)"

text \<open>
  A horizontal velocity field that is zero but for the one sample \<open>[r][c]\<close>, which is \<open>x\<close>.
\<close>

definition one_face :: "int \<Rightarrow> int \<Rightarrow> real \<Rightarrow> int \<Rightarrow> int \<Rightarrow> real" where
  "one_face r c x i j = (if i = r \<and> j = c then x else 0)"

text \<open>
  The cell update as the specification words it (section 4.1): each of the four pressure
  neighbours is read unless that neighbour lies outside the grid, and only then is zero.
\<close>

definition claimed_newPressure ::
  "(int \<Rightarrow> int \<Rightarrow> real) \<Rightarrow> (int \<Rightarrow> int \<Rightarrow> real) \<Rightarrow> (int \<Rightarrow> int \<Rightarrow> real) \<Rightarrow> int \<Rightarrow> int \<Rightarrow> real" where
  "claimed_newPressure p h v row col =
     (let pLeft = (if 0 < col then p row (col - 1) else 0);
          pRight = (if col < 7 then p row (col + 1) else 0);
          pUp = (if 0 < row then p (row - 1) col else 0);
          pDown = (if row < 7 then p (row + 1) col else 0);
          vLeft = h row col;
          vRight = (if col = 7 then 0 else h row (col + 1));
          vUp = v row col;
          vDown = (if row = 7 then 0 else v (row + 1) col);
          divergence = vRight - vLeft + vDown - vUp
      in (pLeft + pRight + pUp + pDown - 0.6 * 1.0 * divergence / 0.016) / 4)"

text \<open>
  The naive simultaneous update the specification contrasts the red-black sweep with
  (section 8, red-black ordering): every cell is recomputed, with the cell update of
  \<^verbatim>\<open>CalculatePressure\<close>, from the pressure values before the sweep.
\<close>

definition JacobiSweep :: "grid \<Rightarrow> grid \<Rightarrow> grid \<Rightarrow> grid" where
  "JacobiSweep p hv vv = tab 8 8 (stored_pressure (cell p) (cell hv) (cell vv))"

text \<open>
  A store for examples: the arrays of the widget at references 0 (pressure), 1 (horizontal
  velocities), 2 (vertical velocities), 3 and 4 (the two temporary arrays), all zero but
  for the horizontal velocity sample \<open>[4][4]\<close>, which is 1.
\<close>

definition demo_store :: store where
  "demo_store = (\<lambda>_. [])
     (0 := tab 8 8 (\<lambda>i j. 0),
      1 := tab 8 9 (\<lambda>i j. if i = 4 \<and> j = 4 then 1 else 0),
      2 := tab 9 8 (\<lambda>i j. 0),
      3 := tab 8 9 (\<lambda>i j. 0),
      4 := tab 9 8 (\<lambda>i j. 0))"

text \<open>
  The same arrays holding a uniform flow to the right (every horizontal sample is 1, every
  vertical sample 0), holding nothing but zeros, and holding no flow but the pressure 4 in
  the cell \<open>[0][1]\<close>.
\<close>

definition uniform_store :: store where
  "uniform_store = (\<lambda>_. [])
     (0 := replicate 8 (replicate 8 0),
      1 := replicate 8 (replicate 9 1),
      2 := replicate 9 (replicate 8 0),
      3 := replicate 8 (replicate 9 0),
      4 := replicate 9 (replicate 8 0))"

definition zero_store :: store where
  "zero_store = (\<lambda>_. [])
     (0 := replicate 8 (replicate 8 0),
      1 := replicate 8 (replicate 9 0),
      2 := replicate 9 (replicate 8 0),
      3 := replicate 8 (replicate 9 0),
      4 := replicate 9 (replicate 8 0))"

definition edge_store :: store where
  "edge_store = (\<lambda>_. [])
     (0 := tab 8 8 (\<lambda>i j. if i = 0 \<and> j = 1 then 4 else 0),
      1 := tab 8 9 (\<lambda>i j. 0),
      2 := tab 9 8 (\<lambda>i j. 0))"

text \<open>
  \<open>bounded_entries g B\<close>: every entry of the array \<open>g\<close> has magnitude at most \<open>B\<close>.
\<close>

definition bounded_entries :: "grid \<Rightarrow> real \<Rightarrow> bool" where
  "bounded_entries g B \<longleftrightarrow> (\<forall>row \<in> set g. \<forall>x \<in> set row. \<bar>x\<bar> \<le> B)"

section \<open>The same functions on numbers that overflow\<close>

text \<open>
  The numbers of the code are IEEE doubles. They differ from the reals in two ways:
  a result is rounded to the nearest double, and a result beyond the largest double,
  \<^verbatim>\<open>Number.MAX_VALUE\<close> \<open>= 2^1024 - 2^971\<close>, is an infinity, after which
  \<^verbatim>\<open>Infinity - Infinity\<close> and \<^verbatim>\<open>0 * Infinity\<close> are \<^verbatim>\<open>NaN\<close>. This section gives the
  pressure sweep and the advection step again over numbers that overflow, to show what
  the code does with magnitudes the real numbers of the first model do not stop at.
  Rounding is left out here as well: a finite result is kept exact, and the sign of a
  zero is not recorded.

  Reading \<^verbatim>\<open>a[i][j]\<close> where the number \<^verbatim>\<open>i\<close> is not an index of \<^verbatim>\<open>a\<close> (out of range,
  fractional, infinite or \<^verbatim>\<open>NaN\<close>) throws a \<^verbatim>\<open>TypeError\<close>, because \<^verbatim>\<open>a[i]\<close> is
  \<^verbatim>\<open>undefined\<close>: this is \<^term>\<open>None\<close>. Where only \<^verbatim>\<open>j\<close> is not an index of the row, the
  read yields \<^verbatim>\<open>undefined\<close>, which is \<^verbatim>\<open>NaN\<close> as soon as \<^verbatim>\<open>lerp\<close> computes with it.
\<close>

datatype double = Finite real | PosInf | NegInf | NaN

definition MAX_VALUE :: real where "MAX_VALUE = 2 ^ 1024 - 2 ^ 971"

definition to_double :: "real \<Rightarrow> double" where
  "to_double r = (if MAX_VALUE < r then PosInf else if r < - MAX_VALUE then NegInf else Finite r)"

fun d_neg :: "double \<Rightarrow> double" where
  "d_neg (Finite a) = Finite (- a)"
| "d_neg PosInf = NegInf"
| "d_neg NegInf = PosInf"
| "d_neg NaN = NaN"

fun d_add :: "double \<Rightarrow> double \<Rightarrow> double" where
  "d_add NaN _ = NaN"
| "d_add _ NaN = NaN"
| "d_add (Finite a) (Finite b) = to_double (a + b)"
| "d_add PosInf NegInf = NaN"
| "d_add NegInf PosInf = NaN"
| "d_add PosInf _ = PosInf"
| "d_add NegInf _ = NegInf"
| "d_add (Finite a) b = b"

definition d_sub :: "double \<Rightarrow> double \<Rightarrow> double" where
  "d_sub a b = d_add a (d_neg b)"

fun d_mul :: "double \<Rightarrow> double \<Rightarrow> double" where
  "d_mul NaN _ = NaN"
| "d_mul _ NaN = NaN"
| "d_mul (Finite a) (Finite b) = to_double (a * b)"
| "d_mul (Finite a) PosInf = (if a = 0 then NaN else if 0 < a then PosInf else NegInf)"
| "d_mul (Finite a) NegInf = (if a = 0 then NaN else if 0 < a then NegInf else PosInf)"
| "d_mul PosInf (Finite b) = (if b = 0 then NaN else if 0 < b then PosInf else NegInf)"
| "d_mul NegInf (Finite b) = (if b = 0 then NaN else if 0 < b then NegInf else PosInf)"
| "d_mul PosInf PosInf = PosInf"
| "d_mul NegInf NegInf = PosInf"
| "d_mul PosInf NegInf = NegInf"
| "d_mul NegInf PosInf = NegInf"

fun d_div :: "double \<Rightarrow> double \<Rightarrow> double" where
  "d_div NaN _ = NaN"
| "d_div _ NaN = NaN"
| "d_div (Finite a) (Finite b) =
     (if b = 0 then (if a = 0 then NaN else if 0 < a then PosInf else NegInf) else to_double (a / b))"
| "d_div (Finite a) _ = Finite 0"
| "d_div PosInf (Finite b) = (if 0 \<le> b then PosInf else NegInf)"
| "d_div NegInf (Finite b) = (if 0 \<le> b then NegInf else PosInf)"
| "d_div _ _ = NaN"

fun Math_floor :: "double \<Rightarrow> double" where
  "Math_floor (Finite a) = Finite (of_int \<lfloor>a\<rfloor>)"
| "Math_floor x = x"

fun Math_min :: "double \<Rightarrow> double \<Rightarrow> double" where
  "Math_min NaN _ = NaN"
| "Math_min _ NaN = NaN"
| "Math_min NegInf _ = NegInf"
| "Math_min _ NegInf = NegInf"
| "Math_min PosInf b = b"
| "Math_min a PosInf = a"
| "Math_min (Finite a) (Finite b) = Finite (min a b)"

fun Math_max :: "double \<Rightarrow> double \<Rightarrow> double" where
  "Math_max NaN _ = NaN"
| "Math_max _ NaN = NaN"
| "Math_max PosInf _ = PosInf"
| "Math_max _ PosInf = PosInf"
| "Math_max NegInf b = b"
| "Math_max a NegInf = a"
| "Math_max (Finite a) (Finite b) = Finite (max a b)"

text \<open>
  \<^verbatim>\<open>xs[i]\<close> for a number \<^verbatim>\<open>i\<close>: the element when \<^verbatim>\<open>i\<close> is an integer in range, and
  \<^verbatim>\<open>undefined\<close> (\<^term>\<open>None\<close>) otherwise. \<open>load_at\<close> is the read \<^verbatim>\<open>a[i][j]\<close> of the samplers.
\<close>

definition item :: "'a list \<Rightarrow> double \<Rightarrow> 'a option" where
  "item xs i =
     (case i of
        Finite a \<Rightarrow> (if a = of_int \<lfloor>a\<rfloor> \<and> 0 \<le> a \<and> \<lfloor>a\<rfloor> < int (length xs) then Some (xs ! nat \<lfloor>a\<rfloor>) else None)
      | _ \<Rightarrow> None)"

type_synonym dstore = "ref \<Rightarrow> double list list"

definition load_at :: "dstore \<Rightarrow> ref \<Rightarrow> double \<Rightarrow> double \<Rightarrow> double option" where
  "load_at s r i j =
     (case item (s r) i of
        None \<Rightarrow> None
      | Some row \<Rightarrow> (case item row j of None \<Rightarrow> Some NaN | Some x \<Rightarrow> Some x))"

definition CalculatePressure_double :: "ref \<Rightarrow> ref \<Rightarrow> ref \<Rightarrow> int \<Rightarrow> int \<Rightarrow> dstore \<Rightarrow> dstore option" where
  "CalculatePressure_double cellValues horizontalArrows verticalArrows row col s = do {
     let xEdge = (col = 0 \<or> col = 7);
     let yEdge = (row = 0 \<or> row = 7);
     pLeft \<leftarrow> (if xEdge then Some (Finite 0) else load s cellValues row (col - 1));
     pRight \<leftarrow> (if xEdge then Some (Finite 0) else load s cellValues row (col + 1));
     pUp \<leftarrow> (if yEdge then Some (Finite 0) else load s cellValues (row - 1) col);
     pDown \<leftarrow> (if yEdge then Some (Finite 0) else load s cellValues (row + 1) col);
     vLeft \<leftarrow> load s horizontalArrows row col;
     vRight \<leftarrow> (if col = 7 then Some (Finite 0) else load s horizontalArrows row (col + 1));
     vUp \<leftarrow> load s verticalArrows row col;
     vDown \<leftarrow> (if row = 7 then Some (Finite 0) else load s verticalArrows (row + 1) col);
     let pressure = d_add (d_add (d_add pLeft pRight) pUp) pDown;
     let velocity = d_sub (d_add (d_sub vRight vLeft) vDown) vUp;
     save s cellValues row col
       (d_div (d_sub pressure
                 (d_div (d_mul (d_mul (Finite DENSITY) (Finite DELTA_X)) velocity) (Finite DELTA_TIME)))
              (Finite 4))
   }"

definition SolvePressureRedBlack_double :: "ref \<Rightarrow> ref \<Rightarrow> ref \<Rightarrow> dstore \<Rightarrow> dstore option" where
  "SolvePressureRedBlack_double cellValues horizontalArrows verticalArrows s0 = do {
     s1 \<leftarrow> for_each [0..gridSize - 1] (\<lambda>row.
             for_each [0..gridSize - 1] (\<lambda>col s.
               if (row + col) AND 1 = 0
               then CalculatePressure_double cellValues horizontalArrows verticalArrows row col s
               else Some s)) s0;
     for_each [0..gridSize - 1] (\<lambda>row.
       for_each [0..gridSize - 1] (\<lambda>col s.
         if (row + col) AND 1 = 1
         then CalculatePressure_double cellValues horizontalArrows verticalArrows row col s
         else Some s)) s1
   }"

definition lerp_double :: "double \<Rightarrow> double \<Rightarrow> double \<Rightarrow> double" where
  "lerp_double a b t = d_add a (d_mul (d_sub b a) t)"

definition GetVelocityXAtLocalPos_double :: "double \<times> double \<Rightarrow> ref \<Rightarrow> dstore \<Rightarrow> double option" where
  "GetVelocityXAtLocalPos_double localPos horizontalArrows s =
     (let px = fst localPos;
          py = d_sub (snd localPos) (Finite 0.5);
          left = Math_floor px;
          right = d_add left (Finite 1);
          bottom = Math_floor py;
          top = d_add bottom (Finite 1);
          left = Math_max (Finite 0) (Math_min (Finite 8) left);
          right = Math_max (Finite 0) (Math_min (Finite 8) right);
          bottom = Math_max (Finite 0) (Math_min (Finite 7) bottom);
          top = Math_max (Finite 0) (Math_min (Finite 7) top);
          xFrac = d_sub px (Math_floor px);
          yFrac = d_sub py (Math_floor py)
      in do {
        tl \<leftarrow> load_at s horizontalArrows top left;
        tr \<leftarrow> load_at s horizontalArrows top right;
        let valueTop = lerp_double tl tr xFrac;
        bl \<leftarrow> load_at s horizontalArrows bottom left;
        br \<leftarrow> load_at s horizontalArrows bottom right;
        let valueBottom = lerp_double bl br xFrac;
        Some (lerp_double valueBottom valueTop yFrac)
      })"

definition GetVelocityYAtLocalPos_double :: "double \<times> double \<Rightarrow> ref \<Rightarrow> dstore \<Rightarrow> double option" where
  "GetVelocityYAtLocalPos_double localPos verticalArrows s =
     (let px = d_sub (fst localPos) (Finite 0.5);
          py = snd localPos;
          left = Math_floor px;
          right = d_add left (Finite 1);
          bottom = Math_floor py;
          top = d_add bottom (Finite 1);
          left = Math_max (Finite 0) (Math_min (Finite 7) left);
          right = Math_max (Finite 0) (Math_min (Finite 7) right);
          bottom = Math_max (Finite 0) (Math_min (Finite 8) bottom);
          top = Math_max (Finite 0) (Math_min (Finite 8) top);
          xFrac = d_sub px (Math_floor px);
          yFrac = d_sub py (Math_floor py)
      in do {
        tl \<leftarrow> load_at s verticalArrows top left;
        tr \<leftarrow> load_at s verticalArrows top right;
        let valueTop = lerp_double tl tr xFrac;
        bl \<leftarrow> load_at s verticalArrows bottom left;
        br \<leftarrow> load_at s verticalArrows bottom right;
        let valueBottom = lerp_double bl br xFrac;
        Some (lerp_double valueBottom valueTop yFrac)
      })"

definition AdvectVelocities_double :: "ref \<Rightarrow> ref \<Rightarrow> ref \<Rightarrow> ref \<Rightarrow> dstore \<Rightarrow> dstore option" where
  "AdvectVelocities_double horizontalArrows horizontalArrowsTemp verticalArrows verticalArrowsTemp s0 = do {
     s1 \<leftarrow> for_each [0..gridSize] (\<lambda>row.
             for_each [0..gridSize - 1] (\<lambda>col s. do {
               let pos = (d_add (Finite (of_int col)) (Finite 0.5), Finite (of_int row));
               velX \<leftarrow> GetVelocityXAtLocalPos_double pos horizontalArrows s;
               velY \<leftarrow> GetVelocityYAtLocalPos_double pos verticalArrows s;
               let pos = (d_sub (fst pos) (d_mul (Finite DELTA_TIME) velX),
                          d_sub (snd pos) (d_mul (Finite DELTA_TIME) velY));
               newVel \<leftarrow> GetVelocityYAtLocalPos_double pos verticalArrows s;
               save s verticalArrowsTemp row col newVel
             })) s0;
     s2 \<leftarrow> for_each [0..gridSize - 1] (\<lambda>row.
             for_each [0..gridSize] (\<lambda>col s. do {
               let pos = (Finite (of_int col), d_add (Finite (of_int row)) (Finite 0.5));
               velX \<leftarrow> GetVelocityXAtLocalPos_double pos horizontalArrows s;
               velY \<leftarrow> GetVelocityYAtLocalPos_double pos verticalArrows s;
               let pos = (d_sub (fst pos) (d_mul (Finite DELTA_TIME) velX),
                          d_sub (snd pos) (d_mul (Finite DELTA_TIME) velY));
               newVel \<leftarrow> GetVelocityXAtLocalPos_double pos horizontalArrows s;
               save s horizontalArrowsTemp row col newVel
             })) s1;
     s3 \<leftarrow> for_each [0..gridSize] (\<lambda>row.
             for_each [0..gridSize - 1] (\<lambda>col s. do {
               v \<leftarrow> load s verticalArrowsTemp row col;
               save s verticalArrows row col v
             })) s2;
     for_each [0..gridSize - 1] (\<lambda>row.
       for_each [0..gridSize] (\<lambda>col s. do {
         v \<leftarrow> load s horizontalArrowsTemp row col;
         save s horizontalArrows row col v
       })) s3
   }"

text \<open>
  The number \<^verbatim>\<open>CalculatePressure\<close> stores, and the relaxation of one colour class, over
  these numbers.
\<close>

definition stored_pressure_double ::
  "(int \<Rightarrow> int \<Rightarrow> double) \<Rightarrow> (int \<Rightarrow> int \<Rightarrow> double) \<Rightarrow> (int \<Rightarrow> int \<Rightarrow> double) \<Rightarrow> int \<Rightarrow> int \<Rightarrow> double" where
  "stored_pressure_double p h v row col =
     d_div
       (d_sub
          (d_add (d_add (d_add (if col = 0 \<or> col = 7 then Finite 0 else p row (col - 1))
                               (if col = 0 \<or> col = 7 then Finite 0 else p row (col + 1)))
                        (if row = 0 \<or> row = 7 then Finite 0 else p (row - 1) col))
                 (if row = 0 \<or> row = 7 then Finite 0 else p (row + 1) col))
          (d_div
             (d_mul (d_mul (Finite DENSITY) (Finite DELTA_X))
                (d_sub (d_add (d_sub (if col = 7 then Finite 0 else h row (col + 1)) (h row col))
                              (if row = 7 then Finite 0 else v (row + 1) col))
                       (v row col)))
             (Finite DELTA_TIME)))
       (Finite 4)"

definition relax_class_double ::
  "int \<Rightarrow> (int \<Rightarrow> int \<Rightarrow> double) \<Rightarrow> (int \<Rightarrow> int \<Rightarrow> double) \<Rightarrow> (int \<Rightarrow> int \<Rightarrow> double) \<Rightarrow> int \<Rightarrow> int \<Rightarrow> double" where
  "relax_class_double k p h v i j = (if (i + j) AND 1 = k then stored_pressure_double p h v i j else p i j)"

text \<open>
  Two stores of such numbers. In \<open>huge_face_store\<close> the pressure (reference 0) and the
  velocities (references 1 and 2) are zero but for the horizontal sample \<open>[4][4]\<close>, which is
  \<open>10^308\<close>. In \<open>huge_shear_store\<close> the velocities (references 1 and 2) and the temporary
  arrays (references 3 and 4) are zero but for the vertical samples \<open>[4][4]\<close>, which is
  \<open>10^308\<close>, and \<open>[5][4]\<close>, which is \<open>- 10^308\<close>.
\<close>

definition huge_face_store :: dstore where
  "huge_face_store = (\<lambda>_. [])
     (0 := tab 8 8 (\<lambda>i j. Finite 0),
      1 := tab 8 9 (\<lambda>i j. if i = 4 \<and> j = 4 then Finite (10 ^ 308) else Finite 0),
      2 := tab 9 8 (\<lambda>i j. Finite 0))"

definition huge_shear_store :: dstore where
  "huge_shear_store = (\<lambda>_. [])
     (1 := tab 8 9 (\<lambda>i j. Finite 0),
      2 := tab 9 8 (\<lambda>i j. if i = 4 \<and> j = 4 then Finite (10 ^ 308)
                            else if i = 5 \<and> j = 4 then Finite (- (10 ^ 308)) else Finite 0),
      3 := tab 8 9 (\<lambda>i j. Finite 0),
      4 := tab 9 8 (\<lambda>i j. Finite 0))"

section \<open>Arrays as tables\<close>

lemma shape_tab: "shape (tab m n f) m n"
  by (auto simp: shape_def tab_def)

lemma cell_tab: "0 \<le> i \<Longrightarrow> i < int m \<Longrightarrow> 0 \<le> j \<Longrightarrow> j < int n \<Longrightarrow> cell (tab m n f) i j = f i j"
proof -
  assume a: "0 \<le> i" "i < int m" "0 \<le> j" "j < int n"
  then have "nat i < m" "nat j < n" by linarith+
  with a show ?thesis by (simp add: cell_def tab_def)
qed

lemma tab_cell: "shape a m n \<Longrightarrow> tab m n (cell a) = a"
  unfolding shape_def tab_def cell_def
  by (auto intro!: nth_equalityI)

lemma tab_cong:
  "(\<And>i j. 0 \<le> i \<Longrightarrow> i < int m \<Longrightarrow> 0 \<le> j \<Longrightarrow> j < int n \<Longrightarrow> f i j = g i j) \<Longrightarrow> tab m n f = tab m n g"
  by (simp add: tab_def)

lemma rd_tab: "rd (tab m n f) i j = (if 0 \<le> i \<and> i < int m \<and> 0 \<le> j \<and> j < int n then Some (f i j) else None)"
  by (auto simp: rd_def tab_def)

lemma wr_tab:
  "wr (tab m n f) i j v =
     (if 0 \<le> i \<and> i < int m \<and> 0 \<le> j \<and> j < int n
      then Some (tab m n (\<lambda>i' j'. if i' = i \<and> j' = j then v else f i' j')) else None)"
proof (cases "0 \<le> i \<and> i < int m \<and> 0 \<le> j \<and> j < int n")
  case True
  then have lt: "nat i < m" "nat j < n" by linarith+
  have "(tab m n f)[nat i := (tab m n f ! nat i)[nat j := v]] =
        tab m n (\<lambda>i' j'. if i' = i \<and> j' = j then v else f i' j')"
  proof (rule nth_equalityI)
    show "length ((tab m n f)[nat i := (tab m n f ! nat i)[nat j := v]]) =
          length (tab m n (\<lambda>i' j'. if i' = i \<and> j' = j then v else f i' j'))"
      by (simp add: tab_def)
  next
    fix a assume "a < length ((tab m n f)[nat i := (tab m n f ! nat i)[nat j := v]])"
    then have a: "a < m" by (simp add: tab_def)
    show "(tab m n f)[nat i := (tab m n f ! nat i)[nat j := v]] ! a =
          tab m n (\<lambda>i' j'. if i' = i \<and> j' = j then v else f i' j') ! a"
    proof (cases "a = nat i")
      case True
      with lt a True show ?thesis
        using \<open>0 \<le> i \<and> i < int m \<and> 0 \<le> j \<and> j < int n\<close>
        by (auto simp: tab_def nth_list_update intro!: nth_equalityI)
    next
      case False
      with lt a show ?thesis
        using \<open>0 \<le> i \<and> i < int m \<and> 0 \<le> j \<and> j < int n\<close>
        by (auto simp: tab_def nth_list_update)
    qed
  qed
  with True lt show ?thesis by (simp add: wr_def tab_def)
next
  case False
  then show ?thesis by (auto simp: wr_def tab_def)
qed

lemma load_tab:
  "load (s(t := tab m n f)) r i j =
     (if r = t then (if 0 \<le> i \<and> i < int m \<and> 0 \<le> j \<and> j < int n then Some (f i j) else None)
      else load s r i j)"
  by (simp add: load_def rd_tab)

lemma save_tab:
  "save (s(t := tab m n f)) t i j v =
     (if 0 \<le> i \<and> i < int m \<and> 0 \<le> j \<and> j < int n
      then Some (s(t := tab m n (\<lambda>i' j'. if i' = i \<and> j' = j then v else f i' j'))) else None)"
  by (simp add: save_def wr_tab)

lemma load_shape:
  "shape (s r) m n \<Longrightarrow> load s r i j = (if 0 \<le> i \<and> i < int m \<and> 0 \<le> j \<and> j < int n then Some (cell (s r) i j) else None)"
  by (auto simp: load_def rd_def shape_def cell_def)

section \<open>Loops that fill an array cell by cell\<close>

lemma settled_refl: "settled g F orig orig"
  by (simp add: settled_def)

lemma settled_step:
  "settled g F orig f \<Longrightarrow> settled g F orig (\<lambda>i' j'. if i' = i \<and> j' = j \<and> g i j then F i j else f i' j')"
  by (auto simp: settled_def)

lemma settled_row:
  "settled g F orig f \<Longrightarrow> settled g F orig (\<lambda>i' j'. if i' = i \<and> j' \<in> C \<and> g i' j' then F i' j' else f i' j')"
  by (auto simp: settled_def)

lemma inner_loop:
  assumes step: "\<And>f j. j \<in> set cols \<Longrightarrow> settled g F orig f \<Longrightarrow> f i j = orig i j \<Longrightarrow>
      body j (st(t := tab m n f)) =
      Some (st(t := tab m n (\<lambda>i' j'. if i' = i \<and> j' = j \<and> g i j then F i j else f i' j')))"
  shows "distinct cs \<Longrightarrow> set cs \<subseteq> set cols \<Longrightarrow> settled g F orig f \<Longrightarrow> \<forall>j\<in>set cs. f i j = orig i j \<Longrightarrow>
     for_each cs body (st(t := tab m n f)) =
     Some (st(t := tab m n (\<lambda>i' j'. if i' = i \<and> j' \<in> set cs \<and> g i' j' then F i' j' else f i' j')))"
proof (induction cs arbitrary: f)
  case Nil
  then show ?case by simp
next
  case (Cons c cs)
  let ?f1 = "\<lambda>i' j'. if i' = i \<and> j' = c \<and> g i c then F i c else f i' j'"
  have b: "body c (st(t := tab m n f)) = Some (st(t := tab m n ?f1))"
    using Cons.prems by (intro step) auto
  have s1: "settled g F orig ?f1"
    using Cons.prems(3) by (rule settled_step)
  have u: "\<forall>j\<in>set cs. ?f1 i j = orig i j"
    using Cons.prems(1,4) by auto
  have ih: "for_each cs body (st(t := tab m n ?f1)) =
     Some (st(t := tab m n (\<lambda>i' j'. if i' = i \<and> j' \<in> set cs \<and> g i' j' then F i' j' else ?f1 i' j')))"
    using Cons.prems(1,2) s1 u by (intro Cons.IH) auto
  have eq: "(\<lambda>i' j'. if i' = i \<and> j' \<in> set cs \<and> g i' j' then F i' j' else ?f1 i' j') =
            (\<lambda>i' j'. if i' = i \<and> j' \<in> set (c # cs) \<and> g i' j' then F i' j' else f i' j')"
    by (intro ext) auto
  have "for_each (c # cs) body (st(t := tab m n f)) = for_each cs body (st(t := tab m n ?f1))"
    by (simp only: for_each.simps b option.simps)
  also note ih
  finally show ?case by (simp only: eq)
qed

lemma nest_loop:
  assumes step: "\<And>f i j. i \<in> set rows \<Longrightarrow> j \<in> set cols \<Longrightarrow> settled g F orig f \<Longrightarrow> f i j = orig i j \<Longrightarrow>
      body i j (st(t := tab m n f)) =
      Some (st(t := tab m n (\<lambda>i' j'. if i' = i \<and> j' = j \<and> g i j then F i j else f i' j')))"
    and dc: "distinct cols"
  shows "distinct rs \<Longrightarrow> set rs \<subseteq> set rows \<Longrightarrow> settled g F orig f \<Longrightarrow>
     \<forall>i\<in>set rs. \<forall>j\<in>set cols. f i j = orig i j \<Longrightarrow>
     for_each rs (\<lambda>row. for_each cols (body row)) (st(t := tab m n f)) =
     Some (st(t := tab m n (\<lambda>i' j'. if i' \<in> set rs \<and> j' \<in> set cols \<and> g i' j' then F i' j' else f i' j')))"
proof (induction rs arbitrary: f)
  case Nil
  then show ?case by simp
next
  case (Cons r rs)
  let ?f1 = "\<lambda>i' j'. if i' = r \<and> j' \<in> set cols \<and> g i' j' then F i' j' else f i' j'"
  have r: "r \<in> set rows" using Cons.prems(2) by simp
  have b: "for_each cols (body r) (st(t := tab m n f)) = Some (st(t := tab m n ?f1))"
    using dc Cons.prems(3,4) by (intro inner_loop [where cols = cols and orig = orig] step r) auto
  have s1: "settled g F orig ?f1"
    using Cons.prems(3) by (rule settled_row)
  have u: "\<forall>i\<in>set rs. \<forall>j\<in>set cols. ?f1 i j = orig i j"
    using Cons.prems(1,4) by auto
  have ih: "for_each rs (\<lambda>row. for_each cols (body row)) (st(t := tab m n ?f1)) =
     Some (st(t := tab m n (\<lambda>i' j'. if i' \<in> set rs \<and> j' \<in> set cols \<and> g i' j' then F i' j' else ?f1 i' j')))"
    using Cons.prems(1,2) s1 u by (intro Cons.IH) auto
  have eq: "(\<lambda>i' j'. if i' \<in> set rs \<and> j' \<in> set cols \<and> g i' j' then F i' j' else ?f1 i' j') =
            (\<lambda>i' j'. if i' \<in> set (r # rs) \<and> j' \<in> set cols \<and> g i' j' then F i' j' else f i' j')"
    by (intro ext) auto
  have "for_each (r # rs) (\<lambda>row. for_each cols (body row)) (st(t := tab m n f)) = for_each rs (\<lambda>row. for_each cols (body row)) (st(t := tab m n ?f1))"
    by (simp only: for_each.simps b option.simps)
  also note ih
  finally show ?case by (simp only: eq)
qed

lemma nest_loop_shape:
  assumes sh: "shape (st t) m n"
    and dr: "distinct rows" and dc: "distinct cols"
    and step: "\<And>f i j. i \<in> set rows \<Longrightarrow> j \<in> set cols \<Longrightarrow> settled g F (cell (st t)) f \<Longrightarrow>
      f i j = cell (st t) i j \<Longrightarrow>
      body i j (st(t := tab m n f)) =
      Some (st(t := tab m n (\<lambda>i' j'. if i' = i \<and> j' = j \<and> g i j then F i j else f i' j')))"
  shows "for_each rows (\<lambda>row. for_each cols (body row)) st =
     Some (st(t := tab m n (\<lambda>i j. if i \<in> set rows \<and> j \<in> set cols \<and> g i j then F i j else cell (st t) i j)))"
proof -
  have "st(t := tab m n (cell (st t))) = st"
    using sh by (simp add: tab_cell)
  moreover have "for_each rows (\<lambda>row. for_each cols (body row)) (st(t := tab m n (cell (st t)))) =
     Some (st(t := tab m n (\<lambda>i j. if i \<in> set rows \<and> j \<in> set cols \<and> g i j then F i j else cell (st t) i j)))"
    using dr by (intro nest_loop [where rows = rows and orig = "cell (st t)"] step dc settled_refl) auto
  ultimately show ?thesis by simp
qed

lemma shape_neq_rows: "shape (s a) m n \<Longrightarrow> shape (s b) m' n' \<Longrightarrow> m \<noteq> m' \<Longrightarrow> a \<noteq> b"
  by (auto simp: shape_def)

lemma shape_neq_cols: "shape (s a) m n \<Longrightarrow> shape (s b) m n' \<Longrightarrow> n \<noteq> n' \<Longrightarrow> 0 < m \<Longrightarrow> a \<noteq> b"
  unfolding shape_def by (metis nth_mem)

section \<open>The pressure sweep\<close>

lemma CalculatePressure_tab:
  assumes "t \<noteq> ha" "t \<noteq> va" "shape (s ha) 8 9" "shape (s va) 9 8"
    and "0 \<le> row" "row < 8" "0 \<le> col" "col < 8"
  shows "CalculatePressure t ha va row col (s(t := tab 8 8 f)) =
     Some (s(t := tab 8 8 (\<lambda>i' j'. if i' = row \<and> j' = col then stored_pressure f (cell (s ha)) (cell (s va)) row col else f i' j')))"
  using assms
  by (simp add: CalculatePressure_def Let_def load_tab save_tab load_shape stored_pressure_def cong: if_cong)

lemma colour_flip:
  fixes i j :: int
  assumes "(i + j) AND 1 = k"
  shows "(i + (j - 1)) AND 1 \<noteq> k" "(i + (j + 1)) AND 1 \<noteq> k" "(i - 1 + j) AND 1 \<noteq> k" "(i + 1 + j) AND 1 \<noteq> k"
  using assms by (simp_all add: and_one_eq) presburger+

lemma stored_pressure_settled:
  assumes "settled (\<lambda>i j. (i + j) AND 1 = k) F orig f" "(i + j) AND 1 = k"
  shows "stored_pressure f h v i j = stored_pressure orig h v i j"
proof -
  have eqs: "f i (j - 1) = orig i (j - 1)" "f i (j + 1) = orig i (j + 1)"
       "f (i - 1) j = orig (i - 1) j" "f (i + 1) j = orig (i + 1) j"
    using assms(1) colour_flip [OF assms(2)] unfolding settled_def by blast+
  show ?thesis unfolding stored_pressure_def eqs by (rule refl)
qed

lemma half_sweep:
  assumes sh: "shape (s cv) 8 8" "shape (s ha) 8 9" "shape (s va) 9 8"
  shows "for_each [0..gridSize - 1] (\<lambda>row.
           for_each [0..gridSize - 1] (\<lambda>col s.
             if (row + col) AND 1 = k
             then CalculatePressure cv ha va row col s
             else Some s)) s =
         Some (s(cv := tab 8 8 (\<lambda>i j. if (i + j) AND 1 = k
                  then stored_pressure (cell (s cv)) (cell (s ha)) (cell (s va)) i j else cell (s cv) i j)))"
proof -
  have ne: "cv \<noteq> ha" "cv \<noteq> va"
    using sh by (auto dest: shape_neq_rows shape_neq_cols)
  let ?g = "\<lambda>i j::int. (i + j) AND 1 = k"
  let ?F = "stored_pressure (cell (s cv)) (cell (s ha)) (cell (s va))"
  have "for_each [0..7] (\<lambda>row.
           for_each [0..7] (\<lambda>col s.
             if (row + col) AND 1 = k
             then CalculatePressure cv ha va row col s
             else Some s)) s =
     Some (s(cv := tab 8 8 (\<lambda>i j. if i \<in> set [0..7] \<and> j \<in> set [0..7] \<and> ?g i j then ?F i j else cell (s cv) i j)))"
  proof (rule nest_loop_shape [where st = s and t = cv and g = ?g and F = ?F])
    show "shape (s cv) 8 8" by (rule sh)
  next
    fix f i j
    assume ij: "i \<in> set [0..7]" "j \<in> set [0..7]"
      and st: "settled ?g ?F (cell (s cv)) f"
    show "(if (i + j) AND 1 = k then CalculatePressure cv ha va i j (s(cv := tab 8 8 f))
           else Some (s(cv := tab 8 8 f))) =
          Some (s(cv := tab 8 8 (\<lambda>i' j'. if i' = i \<and> j' = j \<and> (i + j) AND 1 = k then ?F i j else f i' j')))"
    proof (cases "(i + j) AND 1 = k")
      case True
      have "CalculatePressure cv ha va i j (s(cv := tab 8 8 f)) =
            Some (s(cv := tab 8 8 (\<lambda>i' j'. if i' = i \<and> j' = j then stored_pressure f (cell (s ha)) (cell (s va)) i j else f i' j')))"
        using ij ne sh by (intro CalculatePressure_tab) auto
      then show ?thesis
        using True unfolding stored_pressure_settled [OF st True] by simp
    next
      case False
      then show ?thesis by simp
    qed
  qed simp_all
  moreover have "tab 8 8 (\<lambda>i j. if i \<in> set [0..7] \<and> j \<in> set [0..7] \<and> ?g i j then ?F i j else cell (s cv) i j) =
        tab 8 8 (\<lambda>i j. if ?g i j then ?F i j else cell (s cv) i j)"
    by (rule tab_cong) auto
  ultimately show ?thesis by (simp add: gridSize_def)
qed

lemma stored_pressure_cong:
  assumes "\<And>i' j'. 0 \<le> i' \<Longrightarrow> i' < 8 \<Longrightarrow> 0 \<le> j' \<Longrightarrow> j' < 8 \<Longrightarrow> p i' j' = q i' j'"
    and "0 \<le> i" "i < 8" "0 \<le> j" "j < 8"
  shows "stored_pressure p h v i j = stored_pressure q h v i j"
proof -
  have "j \<noteq> 0 \<and> j \<noteq> 7 \<Longrightarrow> p i (j - 1) = q i (j - 1) \<and> p i (j + 1) = q i (j + 1)"
    using assms by auto
  moreover have "i \<noteq> 0 \<and> i \<noteq> 7 \<Longrightarrow> p (i - 1) j = q (i - 1) j \<and> p (i + 1) j = q (i + 1) j"
    using assms by auto
  ultimately show ?thesis
    by (auto simp: stored_pressure_def)
qed

lemma SolvePressureRedBlack_eq:
  assumes sh: "shape (s cv) 8 8" "shape (s ha) 8 9" "shape (s va) 9 8"
  shows "SolvePressureRedBlack cv ha va s =
     Some (s(cv := tab 8 8 (relax_class 1 (relax_class 0 (cell (s cv)) (cell (s ha)) (cell (s va)))
                              (cell (s ha)) (cell (s va)))))"
proof -
  have ne: "cv \<noteq> ha" "cv \<noteq> va"
    using sh by (auto dest: shape_neq_rows shape_neq_cols)
  let ?h = "cell (s ha)" and ?v = "cell (s va)"
  let ?p1 = "relax_class 0 (cell (s cv)) ?h ?v"
  let ?s1 = "s(cv := tab 8 8 ?p1)"
  have sh1: "shape (?s1 cv) 8 8" "shape (?s1 ha) 8 9" "shape (?s1 va) 9 8"
    using sh ne by (simp_all add: shape_tab)
  have r: "(\<lambda>i j. if (i + j) AND 1 = 0 then stored_pressure (cell (s cv)) ?h ?v i j else cell (s cv) i j) = ?p1"
    by (intro ext) (simp add: relax_class_def)
  have red: "for_each [0..gridSize - 1] (\<lambda>row.
           for_each [0..gridSize - 1] (\<lambda>col s.
             if (row + col) AND 1 = 0
             then CalculatePressure cv ha va row col s
             else Some s)) s = Some ?s1"
    using half_sweep [OF sh, of 0] unfolding r .
  have eq: "tab 8 8 (\<lambda>i j. if (i + j) AND 1 = 1
              then stored_pressure (cell (?s1 cv)) (cell (?s1 ha)) (cell (?s1 va)) i j else cell (?s1 cv) i j) =
        tab 8 8 (relax_class 1 ?p1 ?h ?v)"
  proof (rule tab_cong)
    fix i j :: int
    assume ij: "0 \<le> i" "i < int 8" "0 \<le> j" "j < int 8"
    have "stored_pressure (cell (tab 8 8 ?p1)) ?h ?v i j = stored_pressure ?p1 ?h ?v i j"
      using ij by (intro stored_pressure_cong) (simp_all add: cell_tab)
    then show "(if (i + j) AND 1 = 1
           then stored_pressure (cell (?s1 cv)) (cell (?s1 ha)) (cell (?s1 va)) i j else cell (?s1 cv) i j) =
          relax_class 1 ?p1 ?h ?v i j"
      using ij ne by (simp add: relax_class_def cell_tab)
  qed
  have black: "for_each [0..gridSize - 1] (\<lambda>row.
           for_each [0..gridSize - 1] (\<lambda>col s.
             if (row + col) AND 1 = 1
             then CalculatePressure cv ha va row col s
             else Some s)) ?s1 = Some (s(cv := tab 8 8 (relax_class 1 ?p1 ?h ?v)))"
    using half_sweep [where s = ?s1 and cv = cv and ha = ha and va = va and k = 1, OF sh1]
    unfolding eq by simp
  show ?thesis
    unfolding SolvePressureRedBlack_def by (simp add: red black)
qed

lemma stored_pressure_cong3:
  assumes p: "\<And>i' j'. 0 \<le> i' \<Longrightarrow> i' < 8 \<Longrightarrow> 0 \<le> j' \<Longrightarrow> j' < 8 \<Longrightarrow> p i' j' = q i' j'"
    and h: "\<And>i' j'. 0 \<le> i' \<Longrightarrow> i' < 8 \<Longrightarrow> 0 \<le> j' \<Longrightarrow> j' < 9 \<Longrightarrow> h i' j' = h' i' j'"
    and v: "\<And>i' j'. 0 \<le> i' \<Longrightarrow> i' < 9 \<Longrightarrow> 0 \<le> j' \<Longrightarrow> j' < 8 \<Longrightarrow> v i' j' = v' i' j'"
    and ij: "0 \<le> i" "i < 8" "0 \<le> j" "j < 8"
  shows "stored_pressure p h v i j = stored_pressure q h' v' i j"
proof -
  have e: "(if j = 0 \<or> j = 7 then 0 else p i (j - 1)) = (if j = 0 \<or> j = 7 then 0 else q i (j - 1))"
    "(if j = 0 \<or> j = 7 then 0 else p i (j + 1)) = (if j = 0 \<or> j = 7 then 0 else q i (j + 1))"
    "(if i = 0 \<or> i = 7 then 0 else p (i - 1) j) = (if i = 0 \<or> i = 7 then 0 else q (i - 1) j)"
    "(if i = 0 \<or> i = 7 then 0 else p (i + 1) j) = (if i = 0 \<or> i = 7 then 0 else q (i + 1) j)"
    using ij by (auto intro: p)
  have f: "(if j = 7 then 0 else h i (j + 1)) = (if j = 7 then 0 else h' i (j + 1))"
    "(if i = 7 then 0 else v (i + 1) j) = (if i = 7 then 0 else v' (i + 1) j)"
    "h i j = h' i j" "v i j = v' i j"
    using ij by (auto intro: h v)
  show ?thesis
    unfolding stored_pressure_def e f ..
qed

lemma relax_class_cong:
  assumes p: "\<And>i' j'. 0 \<le> i' \<Longrightarrow> i' < 8 \<Longrightarrow> 0 \<le> j' \<Longrightarrow> j' < 8 \<Longrightarrow> p i' j' = q i' j'"
    and h: "\<And>i' j'. 0 \<le> i' \<Longrightarrow> i' < 8 \<Longrightarrow> 0 \<le> j' \<Longrightarrow> j' < 9 \<Longrightarrow> h i' j' = h' i' j'"
    and v: "\<And>i' j'. 0 \<le> i' \<Longrightarrow> i' < 9 \<Longrightarrow> 0 \<le> j' \<Longrightarrow> j' < 8 \<Longrightarrow> v i' j' = v' i' j'"
    and ij: "0 \<le> i" "i < 8" "0 \<le> j" "j < 8"
  shows "relax_class k p h v i j = relax_class k q h' v' i j"
  unfolding relax_class_def
  using stored_pressure_cong3 [of p q h h' v v' i j, OF p h v ij] p [OF ij] by simp

lemma sweep_cong:
  assumes p: "\<And>i' j'. 0 \<le> i' \<Longrightarrow> i' < 8 \<Longrightarrow> 0 \<le> j' \<Longrightarrow> j' < 8 \<Longrightarrow> p i' j' = q i' j'"
    and h: "\<And>i' j'. 0 \<le> i' \<Longrightarrow> i' < 8 \<Longrightarrow> 0 \<le> j' \<Longrightarrow> j' < 9 \<Longrightarrow> h i' j' = h' i' j'"
    and v: "\<And>i' j'. 0 \<le> i' \<Longrightarrow> i' < 9 \<Longrightarrow> 0 \<le> j' \<Longrightarrow> j' < 8 \<Longrightarrow> v i' j' = v' i' j'"
  shows "tab 8 8 (relax_class 1 (relax_class 0 p h v) h v) =
         tab 8 8 (relax_class 1 (relax_class 0 q h' v') h' v')"
proof (rule tab_cong)
  fix i j :: int
  assume ij: "0 \<le> i" "i < int 8" "0 \<le> j" "j < int 8"
  show "relax_class 1 (relax_class 0 p h v) h v i j = relax_class 1 (relax_class 0 q h' v') h' v' i j"
  proof (rule relax_class_cong)
    fix i' j' :: int
    assume "0 \<le> i'" "i' < 8" "0 \<le> j'" "j' < 8"
    then show "relax_class 0 p h v i' j' = relax_class 0 q h' v' i' j'"
      by (intro relax_class_cong p h v)
  qed (use ij in \<open>simp_all add: h v\<close>)
qed

lemma CalculatePressure_value:
  assumes sh: "shape (s cv) 8 8" "shape (s ha) 8 9" "shape (s va) 9 8"
    and ij: "0 \<le> row" "row < 8" "0 \<le> col" "col < 8"
  shows "CalculatePressure cv ha va row col s \<bind> (\<lambda>s'. load s' cv row col) =
         Some (stored_pressure (cell (s cv)) (cell (s ha)) (cell (s va)) row col)"
proof -
  have ne: "cv \<noteq> ha" "cv \<noteq> va"
    using sh by (auto dest: shape_neq_rows shape_neq_cols)
  have "s(cv := tab 8 8 (cell (s cv))) = s"
    using sh(1) by (simp add: tab_cell)
  then have "CalculatePressure cv ha va row col s =
     Some (s(cv := tab 8 8 (\<lambda>i' j'. if i' = row \<and> j' = col
        then stored_pressure (cell (s cv)) (cell (s ha)) (cell (s va)) row col else cell (s cv) i' j')))"
    using CalculatePressure_tab [where s = s and t = cv and ha = ha and va = va
        and f = "cell (s cv)" and row = row and col = col, OF ne sh(2,3) ij]
    by simp
  then show ?thesis
    using ij by (simp add: load_tab)
qed

section \<open>The projection step\<close>

lemma tab_range:
  "tab m n (\<lambda>i j. if i \<in> set [0..int m - 1] \<and> j \<in> set [0..int n - 1] \<and> True then F i j else G i j) = tab m n F"
  by (rule tab_cong) auto

lemma project_loop_V:
  assumes sh: "shape (s cv) 8 8" "shape (s va) 9 8"
  shows "for_each [0..gridSize] (\<lambda>row.
           for_each [0..gridSize - 1] (\<lambda>col s.
             if row = 0 \<or> row = 8
             then save s va row col 0
             else do {
               pCenter \<leftarrow> load s cv row col;
               pUp \<leftarrow> load s cv (row - 1) col;
               old \<leftarrow> load s va row col;
               save s va row col (old - k * (pCenter - pUp))
             })) s =
         Some (s(va := tab 9 8 (\<lambda>i j. if i = 0 \<or> i = 8 then 0
                  else cell (s va) i j - k * (cell (s cv) i j - cell (s cv) (i - 1) j))))"
proof -
  have ne: "cv \<noteq> va"
    using sh by (auto dest: shape_neq_rows)
  let ?F = "\<lambda>i j. if i = 0 \<or> i = 8 then 0
                  else cell (s va) i j - k * (cell (s cv) i j - cell (s cv) (i - 1) j)"
  have "for_each [0..8] (\<lambda>row.
           for_each [0..7] (\<lambda>col s.
             if row = 0 \<or> row = 8
             then save s va row col 0
             else do {
               pCenter \<leftarrow> load s cv row col;
               pUp \<leftarrow> load s cv (row - 1) col;
               old \<leftarrow> load s va row col;
               save s va row col (old - k * (pCenter - pUp))
             })) s =
     Some (s(va := tab 9 8 (\<lambda>i j. if i \<in> set [0..8] \<and> j \<in> set [0..7] \<and> True then ?F i j else cell (s va) i j)))"
  proof (rule nest_loop_shape [where st = s and t = va and g = "\<lambda>_ _. True" and F = ?F])
    show "shape (s va) 9 8" by (rule sh)
  next
    fix f i j
    assume ij: "i \<in> set [0..8]" "j \<in> set [0..7]"
      and fresh: "f i j = cell (s va) i j"
    show "(if i = 0 \<or> i = 8 then save (s(va := tab 9 8 f)) va i j 0
           else do {
               pCenter \<leftarrow> load (s(va := tab 9 8 f)) cv i j;
               pUp \<leftarrow> load (s(va := tab 9 8 f)) cv (i - 1) j;
               old \<leftarrow> load (s(va := tab 9 8 f)) va i j;
               save (s(va := tab 9 8 f)) va i j (old - k * (pCenter - pUp))
             }) =
          Some (s(va := tab 9 8 (\<lambda>i' j'. if i' = i \<and> j' = j \<and> True then ?F i j else f i' j')))"
      using ij ne fresh sh(1)
      by (simp add: load_tab save_tab load_shape cong: if_cong)
  qed simp_all
  then show ?thesis
    using tab_range [where m = 9 and n = 8 and F = ?F] by (simp add: gridSize_def)
qed

lemma project_loop_H:
  assumes sh: "shape (s cv) 8 8" "shape (s ha) 8 9"
  shows "for_each [0..gridSize - 1] (\<lambda>row.
           for_each [0..gridSize] (\<lambda>col s.
             if col = 0 \<or> col = 8
             then save s ha row col 0
             else do {
               pCenter \<leftarrow> load s cv row col;
               pLeft \<leftarrow> load s cv row (col - 1);
               old \<leftarrow> load s ha row col;
               save s ha row col (old - k * (pCenter - pLeft))
             })) s =
         Some (s(ha := tab 8 9 (\<lambda>i j. if j = 0 \<or> j = 8 then 0
                  else cell (s ha) i j - k * (cell (s cv) i j - cell (s cv) i (j - 1)))))"
proof -
  have ne: "cv \<noteq> ha"
    using sh by (auto dest: shape_neq_cols)
  let ?F = "\<lambda>i j. if j = 0 \<or> j = 8 then 0
                  else cell (s ha) i j - k * (cell (s cv) i j - cell (s cv) i (j - 1))"
  have "for_each [0..7] (\<lambda>row.
           for_each [0..8] (\<lambda>col s.
             if col = 0 \<or> col = 8
             then save s ha row col 0
             else do {
               pCenter \<leftarrow> load s cv row col;
               pLeft \<leftarrow> load s cv row (col - 1);
               old \<leftarrow> load s ha row col;
               save s ha row col (old - k * (pCenter - pLeft))
             })) s =
     Some (s(ha := tab 8 9 (\<lambda>i j. if i \<in> set [0..7] \<and> j \<in> set [0..8] \<and> True then ?F i j else cell (s ha) i j)))"
  proof (rule nest_loop_shape [where st = s and t = ha and g = "\<lambda>_ _. True" and F = ?F])
    show "shape (s ha) 8 9" by (rule sh)
  next
    fix f i j
    assume ij: "i \<in> set [0..7]" "j \<in> set [0..8]"
      and fresh: "f i j = cell (s ha) i j"
    show "(if j = 0 \<or> j = 8 then save (s(ha := tab 8 9 f)) ha i j 0
           else do {
               pCenter \<leftarrow> load (s(ha := tab 8 9 f)) cv i j;
               pLeft \<leftarrow> load (s(ha := tab 8 9 f)) cv i (j - 1);
               old \<leftarrow> load (s(ha := tab 8 9 f)) ha i j;
               save (s(ha := tab 8 9 f)) ha i j (old - k * (pCenter - pLeft))
             }) =
          Some (s(ha := tab 8 9 (\<lambda>i' j'. if i' = i \<and> j' = j \<and> True then ?F i j else f i' j')))"
      using ij ne fresh sh(1)
      by (simp add: load_tab save_tab load_shape cong: if_cong)
  qed simp_all
  then show ?thesis
    using tab_range [where m = 8 and n = 9 and F = ?F] by (simp add: gridSize_def)
qed

lemma CalculateVelocities_eq:
  assumes sh: "shape (s cv) 8 8" "shape (s ha) 8 9" "shape (s va) 9 8"
  shows "CalculateVelocities cv ha va s =
     Some (s(va := tab 9 8 (projectV (s cv) (s va)), ha := tab 8 9 (projectH (s cv) (s ha))))"
proof -
  have ne: "cv \<noteq> ha" "cv \<noteq> va" "ha \<noteq> va"
    using sh by (auto dest: shape_neq_rows shape_neq_cols)
  let ?s1 = "s(va := tab 9 8 (projectV (s cv) (s va)))"
  have v: "(\<lambda>i j. if i = 0 \<or> i = 8 then 0
         else cell (s va) i j - DELTA_TIME / DENSITY * (cell (s cv) i j - cell (s cv) (i - 1) j)) =
        projectV (s cv) (s va)"
    by (intro ext) (simp add: projectV_def)
  have h: "(\<lambda>i j. if j = 0 \<or> j = 8 then 0
         else cell (?s1 ha) i j - DELTA_TIME / DENSITY * (cell (?s1 cv) i j - cell (?s1 cv) i (j - 1))) =
        projectH (s cv) (s ha)"
    using ne by (intro ext) (simp add: projectH_def)
  have sh1: "shape (?s1 cv) 8 8" "shape (?s1 ha) 8 9"
    using sh ne by simp_all
  show ?thesis
    unfolding CalculateVelocities_def Let_def
    using project_loop_H [where s = ?s1 and cv = cv and ha = ha and k = "DELTA_TIME / DENSITY", OF sh1]
    unfolding h
    by (simp add: project_loop_V [OF sh(1) sh(3)] v)
qed

section \<open>The advection step\<close>

lemma clamp_lo: "(0::int) \<le> max 0 (min k x)"
  by simp

lemma clamp_hi: "(0::int) \<le> k \<Longrightarrow> max 0 (min k x) \<le> k"
  by simp

lemma X_indices_eq:
  "GetVelocityXAtLocalPos_indices localPos =
     (max 0 (min 8 \<lfloor>fst localPos\<rfloor>), max 0 (min 8 (\<lfloor>fst localPos\<rfloor> + 1)),
      max 0 (min 7 \<lfloor>snd localPos - 0.5\<rfloor>), max 0 (min 7 (\<lfloor>snd localPos - 0.5\<rfloor> + 1)))"
  unfolding GetVelocityXAtLocalPos_indices_def Let_def by (rule refl)

lemma Y_indices_eq:
  "GetVelocityYAtLocalPos_indices localPos =
     (max 0 (min 7 \<lfloor>fst localPos - 0.5\<rfloor>), max 0 (min 7 (\<lfloor>fst localPos - 0.5\<rfloor> + 1)),
      max 0 (min 8 \<lfloor>snd localPos\<rfloor>), max 0 (min 8 (\<lfloor>snd localPos\<rfloor> + 1)))"
  unfolding GetVelocityYAtLocalPos_indices_def Let_def by (rule refl)

lemma X_indices_range:
  "case GetVelocityXAtLocalPos_indices localPos of
     (l, r, b, t) \<Rightarrow> 0 \<le> l \<and> l \<le> 8 \<and> 0 \<le> r \<and> r \<le> 8 \<and> 0 \<le> b \<and> b \<le> 7 \<and> 0 \<le> t \<and> t \<le> 7"
  unfolding X_indices_eq prod.case
  by (intro conjI clamp_lo clamp_hi) simp_all

lemma Y_indices_range:
  "case GetVelocityYAtLocalPos_indices localPos of
     (l, r, b, t) \<Rightarrow> 0 \<le> l \<and> l \<le> 7 \<and> 0 \<le> r \<and> r \<le> 7 \<and> 0 \<le> b \<and> b \<le> 8 \<and> 0 \<le> t \<and> t \<le> 8"
  unfolding Y_indices_eq prod.case
  by (intro conjI clamp_lo clamp_hi) simp_all

lemma GetVelocityXAtLocalPos_eq:
  assumes "shape (s ha) 8 9"
  shows "GetVelocityXAtLocalPos localPos ha s = Some (sampleX (s ha) localPos)"
proof -
  obtain l r b t where
    i: "GetVelocityXAtLocalPos_indices localPos = (l, r, b, t)"
    by (metis prod_cases4)
  from X_indices_range [of localPos]
  have "0 \<le> l \<and> l \<le> 8 \<and> 0 \<le> r \<and> r \<le> 8 \<and> 0 \<le> b \<and> b \<le> 7 \<and> 0 \<le> t \<and> t \<le> 7"
    unfolding i prod.case .
  with assms show ?thesis
    by (simp add: GetVelocityXAtLocalPos_def sampleX_def i Let_def load_shape)
qed

lemma GetVelocityYAtLocalPos_eq:
  assumes "shape (s va) 9 8"
  shows "GetVelocityYAtLocalPos localPos va s = Some (sampleY (s va) localPos)"
proof -
  obtain l r b t where
    i: "GetVelocityYAtLocalPos_indices localPos = (l, r, b, t)"
    by (metis prod_cases4)
  from Y_indices_range [of localPos]
  have "0 \<le> l \<and> l \<le> 7 \<and> 0 \<le> r \<and> r \<le> 7 \<and> 0 \<le> b \<and> b \<le> 8 \<and> 0 \<le> t \<and> t \<le> 8"
    unfolding i prod.case .
  with assms show ?thesis
    by (simp add: GetVelocityYAtLocalPos_def sampleY_def i Let_def load_shape)
qed

lemma advect_loop_V:
  assumes sh: "shape (s ha) 8 9" "shape (s va) 9 8" "shape (s vT) 9 8"
    and ne: "vT \<noteq> va"
  shows "for_each [0..gridSize] (\<lambda>row.
           for_each [0..gridSize - 1] (\<lambda>col s. do {
             let pos = (of_int col + 0.5, of_int row);
             velX \<leftarrow> GetVelocityXAtLocalPos pos ha s;
             velY \<leftarrow> GetVelocityYAtLocalPos pos va s;
             let pos = (fst pos - DELTA_TIME * velX, snd pos - DELTA_TIME * velY);
             newVel \<leftarrow> GetVelocityYAtLocalPos pos va s;
             save s vT row col newVel
           })) s =
         Some (s(vT := tab 9 8 (advect_vertical (s ha) (s va))))"
proof -
  have ne': "vT \<noteq> ha"
    using sh by (auto dest: shape_neq_rows)
  let ?F = "advect_vertical (s ha) (s va)"
  have "for_each [0..8] (\<lambda>row.
           for_each [0..7] (\<lambda>col s. do {
             let pos = (of_int col + 0.5, of_int row);
             velX \<leftarrow> GetVelocityXAtLocalPos pos ha s;
             velY \<leftarrow> GetVelocityYAtLocalPos pos va s;
             let pos = (fst pos - DELTA_TIME * velX, snd pos - DELTA_TIME * velY);
             newVel \<leftarrow> GetVelocityYAtLocalPos pos va s;
             save s vT row col newVel
           })) s =
     Some (s(vT := tab 9 8 (\<lambda>i j. if i \<in> set [0..8] \<and> j \<in> set [0..7] \<and> True then ?F i j else cell (s vT) i j)))"
  proof (rule nest_loop_shape [where st = s and t = vT and g = "\<lambda>_ _. True" and F = ?F])
    show "shape (s vT) 9 8" by (rule sh)
  next
    fix f i j
    assume ij: "i \<in> set [0..8]" "j \<in> set [0..7]"
    let ?s = "s(vT := tab 9 8 f)"
    have shs: "shape (?s ha) 8 9" "shape (?s va) 9 8"
      using sh ne ne' by simp_all
    have eqs: "?s ha = s ha" "?s va = s va"
      using ne ne' by simp_all
    show "do {
             let pos = (of_int j + 0.5, of_int i);
             velX \<leftarrow> GetVelocityXAtLocalPos pos ha ?s;
             velY \<leftarrow> GetVelocityYAtLocalPos pos va ?s;
             let pos = (fst pos - DELTA_TIME * velX, snd pos - DELTA_TIME * velY);
             newVel \<leftarrow> GetVelocityYAtLocalPos pos va ?s;
             save ?s vT i j newVel
           } =
          Some (s(vT := tab 9 8 (\<lambda>i' j'. if i' = i \<and> j' = j \<and> True then ?F i j else f i' j')))"
      using ij ne ne'
      by (simp add: GetVelocityXAtLocalPos_eq [where s = ?s and ha = ha, OF shs(1)]
          GetVelocityYAtLocalPos_eq [where s = ?s and va = va, OF shs(2)]
          eqs save_tab advect_vertical_def backtrack_def Let_def cong: if_cong)
  qed simp_all
  then show ?thesis
    using tab_range [where m = 9 and n = 8 and F = ?F] by (simp add: gridSize_def)
qed

lemma advect_loop_H:
  assumes sh: "shape (s ha) 8 9" "shape (s va) 9 8" "shape (s hT) 8 9"
    and ne: "hT \<noteq> ha"
  shows "for_each [0..gridSize - 1] (\<lambda>row.
           for_each [0..gridSize] (\<lambda>col s. do {
             let pos = (of_int col, of_int row + 0.5);
             velX \<leftarrow> GetVelocityXAtLocalPos pos ha s;
             velY \<leftarrow> GetVelocityYAtLocalPos pos va s;
             let pos = (fst pos - DELTA_TIME * velX, snd pos - DELTA_TIME * velY);
             newVel \<leftarrow> GetVelocityXAtLocalPos pos ha s;
             save s hT row col newVel
           })) s =
         Some (s(hT := tab 8 9 (advect_horizontal (s ha) (s va))))"
proof -
  have ne': "hT \<noteq> va"
    using sh by (auto dest: shape_neq_rows)
  let ?F = "advect_horizontal (s ha) (s va)"
  have "for_each [0..7] (\<lambda>row.
           for_each [0..8] (\<lambda>col s. do {
             let pos = (of_int col, of_int row + 0.5);
             velX \<leftarrow> GetVelocityXAtLocalPos pos ha s;
             velY \<leftarrow> GetVelocityYAtLocalPos pos va s;
             let pos = (fst pos - DELTA_TIME * velX, snd pos - DELTA_TIME * velY);
             newVel \<leftarrow> GetVelocityXAtLocalPos pos ha s;
             save s hT row col newVel
           })) s =
     Some (s(hT := tab 8 9 (\<lambda>i j. if i \<in> set [0..7] \<and> j \<in> set [0..8] \<and> True then ?F i j else cell (s hT) i j)))"
  proof (rule nest_loop_shape [where st = s and t = hT and g = "\<lambda>_ _. True" and F = ?F])
    show "shape (s hT) 8 9" by (rule sh)
  next
    fix f i j
    assume ij: "i \<in> set [0..7]" "j \<in> set [0..8]"
    let ?s = "s(hT := tab 8 9 f)"
    have shs: "shape (?s ha) 8 9" "shape (?s va) 9 8"
      using sh ne ne' by simp_all
    have eqs: "?s ha = s ha" "?s va = s va"
      using ne ne' by simp_all
    show "do {
             let pos = (of_int j, of_int i + 0.5);
             velX \<leftarrow> GetVelocityXAtLocalPos pos ha ?s;
             velY \<leftarrow> GetVelocityYAtLocalPos pos va ?s;
             let pos = (fst pos - DELTA_TIME * velX, snd pos - DELTA_TIME * velY);
             newVel \<leftarrow> GetVelocityXAtLocalPos pos ha ?s;
             save ?s hT i j newVel
           } =
          Some (s(hT := tab 8 9 (\<lambda>i' j'. if i' = i \<and> j' = j \<and> True then ?F i j else f i' j')))"
      using ij ne ne'
      by (simp add: GetVelocityXAtLocalPos_eq [where s = ?s and ha = ha, OF shs(1)]
          GetVelocityYAtLocalPos_eq [where s = ?s and va = va, OF shs(2)]
          eqs save_tab advect_horizontal_def backtrack_def Let_def cong: if_cong)
  qed simp_all
  then show ?thesis
    using tab_range [where m = 8 and n = 9 and F = ?F] by (simp add: gridSize_def)
qed

lemma copy_loop:
  assumes sh: "shape (s src) m n" "shape (s dst) m n"
    and ne: "src \<noteq> dst"
    and rc: "distinct rows" "distinct cols" "set rows = {0..<int m}" "set cols = {0..<int n}"
  shows "for_each rows (\<lambda>row.
           for_each cols (\<lambda>col s. do {
             v \<leftarrow> load s src row col;
             save s dst row col v
           })) s = Some (s(dst := s src))"
proof -
  let ?F = "cell (s src)"
  have "for_each rows (\<lambda>row.
           for_each cols (\<lambda>col s. do {
             v \<leftarrow> load s src row col;
             save s dst row col v
           })) s =
     Some (s(dst := tab m n (\<lambda>i j. if i \<in> set rows \<and> j \<in> set cols \<and> True then ?F i j else cell (s dst) i j)))"
  proof (rule nest_loop_shape [where st = s and t = dst and g = "\<lambda>_ _. True" and F = ?F])
    show "shape (s dst) m n" by (rule sh)
  next
    fix f i j
    assume ij: "i \<in> set rows" "j \<in> set cols"
    show "do {
             v \<leftarrow> load (s(dst := tab m n f)) src i j;
             save (s(dst := tab m n f)) dst i j v
           } =
          Some (s(dst := tab m n (\<lambda>i' j'. if i' = i \<and> j' = j \<and> True then ?F i j else f i' j')))"
      using ij ne sh(1) rc(3,4)
      by (simp add: load_tab save_tab load_shape cong: if_cong)
  qed (simp_all add: rc)
  moreover have "tab m n (\<lambda>i j. if i \<in> set rows \<and> j \<in> set cols \<and> True then ?F i j else cell (s dst) i j) = tab m n ?F"
    by (rule tab_cong) (simp add: rc)
  ultimately show ?thesis
    using sh(1) by (simp add: tab_cell)
qed

lemma copy_loop_V:
  assumes "shape (s vT) 9 8" "shape (s va) 9 8" "vT \<noteq> va"
  shows "for_each [0..gridSize] (\<lambda>row.
           for_each [0..gridSize - 1] (\<lambda>col s. do {
             v \<leftarrow> load s vT row col;
             save s va row col v
           })) s = Some (s(va := s vT))"
  using assms by (intro copy_loop [where m = 9 and n = 8]) (auto simp: gridSize_def)

lemma copy_loop_H:
  assumes "shape (s hT) 8 9" "shape (s ha) 8 9" "hT \<noteq> ha"
  shows "for_each [0..gridSize - 1] (\<lambda>row.
           for_each [0..gridSize] (\<lambda>col s. do {
             v \<leftarrow> load s hT row col;
             save s ha row col v
           })) s = Some (s(ha := s hT))"
  using assms by (intro copy_loop [where m = 8 and n = 9]) (auto simp: gridSize_def)

lemma AdvectVelocities_eq:
  assumes sh: "shape (s ha) 8 9" "shape (s hT) 8 9" "shape (s va) 9 8" "shape (s vT) 9 8"
    and ne: "hT \<noteq> ha" "vT \<noteq> va"
  shows "AdvectVelocities ha hT va vT s =
     Some (s(vT := tab 9 8 (advect_vertical (s ha) (s va)),
             hT := tab 8 9 (advect_horizontal (s ha) (s va)),
             va := tab 9 8 (advect_vertical (s ha) (s va)),
             ha := tab 8 9 (advect_horizontal (s ha) (s va))))"
proof -
  have ne': "ha \<noteq> va" "ha \<noteq> vT" "hT \<noteq> va" "hT \<noteq> vT"
    using sh by (auto dest: shape_neq_rows)
  let ?V = "tab 9 8 (advect_vertical (s ha) (s va))"
  let ?H = "tab 8 9 (advect_horizontal (s ha) (s va))"
  let ?s1 = "s(vT := ?V)"
  let ?s2 = "?s1(hT := ?H)"
  let ?s3 = "?s2(va := ?V)"
  have l1: "for_each [0..gridSize] (\<lambda>row.
           for_each [0..gridSize - 1] (\<lambda>col s. do {
             let pos = (of_int col + 0.5, of_int row);
             velX \<leftarrow> GetVelocityXAtLocalPos pos ha s;
             velY \<leftarrow> GetVelocityYAtLocalPos pos va s;
             let pos = (fst pos - DELTA_TIME * velX, snd pos - DELTA_TIME * velY);
             newVel \<leftarrow> GetVelocityYAtLocalPos pos va s;
             save s vT row col newVel
           })) s = Some ?s1"
    using sh ne by (intro advect_loop_V)
  have "for_each [0..gridSize - 1] (\<lambda>row.
           for_each [0..gridSize] (\<lambda>col s. do {
             let pos = (of_int col, of_int row + 0.5);
             velX \<leftarrow> GetVelocityXAtLocalPos pos ha s;
             velY \<leftarrow> GetVelocityYAtLocalPos pos va s;
             let pos = (fst pos - DELTA_TIME * velX, snd pos - DELTA_TIME * velY);
             newVel \<leftarrow> GetVelocityXAtLocalPos pos ha s;
             save s hT row col newVel
           })) ?s1 = Some (?s1(hT := tab 8 9 (advect_horizontal (?s1 ha) (?s1 va))))"
    using sh ne ne' by (intro advect_loop_H [where s = ?s1]) simp_all
  then have l2: "for_each [0..gridSize - 1] (\<lambda>row.
           for_each [0..gridSize] (\<lambda>col s. do {
             let pos = (of_int col, of_int row + 0.5);
             velX \<leftarrow> GetVelocityXAtLocalPos pos ha s;
             velY \<leftarrow> GetVelocityYAtLocalPos pos va s;
             let pos = (fst pos - DELTA_TIME * velX, snd pos - DELTA_TIME * velY);
             newVel \<leftarrow> GetVelocityXAtLocalPos pos ha s;
             save s hT row col newVel
           })) ?s1 = Some ?s2"
    using ne ne' by simp
  have "for_each [0..gridSize] (\<lambda>row.
           for_each [0..gridSize - 1] (\<lambda>col s. do {
             v \<leftarrow> load s vT row col;
             save s va row col v
           })) ?s2 = Some (?s2(va := ?s2 vT))"
    using sh ne ne' by (intro copy_loop_V [where s = ?s2]) (simp_all add: shape_tab)
  then have l3: "for_each [0..gridSize] (\<lambda>row.
           for_each [0..gridSize - 1] (\<lambda>col s. do {
             v \<leftarrow> load s vT row col;
             save s va row col v
           })) ?s2 = Some ?s3"
    using ne ne' by simp
  have "for_each [0..gridSize - 1] (\<lambda>row.
           for_each [0..gridSize] (\<lambda>col s. do {
             v \<leftarrow> load s hT row col;
             save s ha row col v
           })) ?s3 = Some (?s3(ha := ?s3 hT))"
    using sh ne ne' by (intro copy_loop_H [where s = ?s3]) (simp_all add: shape_tab)
  then have l4: "for_each [0..gridSize - 1] (\<lambda>row.
           for_each [0..gridSize] (\<lambda>col s. do {
             v \<leftarrow> load s hT row col;
             save s ha row col v
           })) ?s3 = Some (?s3(ha := ?H))"
    using ne ne' by simp
  show ?thesis
    unfolding AdvectVelocities_def by (simp only: l1 l2 l3 l4 Option.bind.simps)
qed

section \<open>Advection of a uniform field\<close>

lemma tab_const: "tab m n (\<lambda>_ _. c) = replicate m (replicate n c)"
  by (simp add: tab_def map_replicate_const)

lemma all_cells_tab:
  "(\<And>i j. 0 \<le> i \<Longrightarrow> i < int m \<Longrightarrow> 0 \<le> j \<Longrightarrow> j < int n \<Longrightarrow> f i j = c) \<Longrightarrow> all_cells (tab m n f) m n c"
  by (simp add: all_cells_def shape_tab cell_tab)

lemma all_cells_replicate: "all_cells (replicate m (replicate n c)) m n c"
  unfolding tab_const [symmetric] by (rule all_cells_tab) simp

lemma all_cells_eq: "all_cells g m n c \<longleftrightarrow> g = replicate m (replicate n c)"
proof
  assume a: "all_cells g m n c"
  then have "tab m n (cell g) = g"
    by (simp add: all_cells_def tab_cell)
  moreover have "tab m n (cell g) = tab m n (\<lambda>_ _. c)"
    using a by (intro tab_cong) (simp add: all_cells_def)
  ultimately show "g = replicate m (replicate n c)"
    by (simp add: tab_const)
qed (simp add: all_cells_replicate)

lemma lerp_same: "lerp a a t = a"
  by (simp add: lerp_def)

lemma sampleX_uniform:
  assumes "all_cells g 8 9 a"
  shows "sampleX g localPos = a"
proof -
  obtain l r b t where
    i: "GetVelocityXAtLocalPos_indices localPos = (l, r, b, t)"
    by (metis prod_cases4)
  from X_indices_range [of localPos]
  have "0 \<le> l \<and> l \<le> 8 \<and> 0 \<le> r \<and> r \<le> 8 \<and> 0 \<le> b \<and> b \<le> 7 \<and> 0 \<le> t \<and> t \<le> 7"
    unfolding i prod.case .
  with assms have "cell g b l = a" "cell g b r = a" "cell g t l = a" "cell g t r = a"
    by (simp_all add: all_cells_def)
  then show ?thesis
    by (simp add: sampleX_def i Let_def lerp_same)
qed

lemma sampleY_uniform:
  assumes "all_cells g 9 8 a"
  shows "sampleY g localPos = a"
proof -
  obtain l r b t where
    i: "GetVelocityYAtLocalPos_indices localPos = (l, r, b, t)"
    by (metis prod_cases4)
  from Y_indices_range [of localPos]
  have "0 \<le> l \<and> l \<le> 7 \<and> 0 \<le> r \<and> r \<le> 7 \<and> 0 \<le> b \<and> b \<le> 8 \<and> 0 \<le> t \<and> t \<le> 8"
    unfolding i prod.case .
  with assms have "cell g b l = a" "cell g b r = a" "cell g t l = a" "cell g t r = a"
    by (simp_all add: all_cells_def)
  then show ?thesis
    by (simp add: sampleY_def i Let_def lerp_same)
qed

lemma settled_const:
  assumes "settled (\<lambda>_ _. True) (\<lambda>_ _. c) orig f"
    and "\<And>i j. 0 \<le> i \<Longrightarrow> i < int m \<Longrightarrow> 0 \<le> j \<Longrightarrow> j < int n \<Longrightarrow> orig i j = c"
  shows "all_cells (tab m n f) m n c"
  using assms by (intro all_cells_tab) (auto simp: settled_def)

lemma all_cells_upd:
  assumes "all_cells (s r) m n c" "settled (\<lambda>_ _. True) (\<lambda>_ _. c') (cell (s t)) f"
    and "t = r \<Longrightarrow> m' = m \<and> n' = n \<and> c' = c"
  shows "all_cells ((s(t := tab m' n' f)) r) m n c"
proof (cases "t = r")
  case True
  then have mn: "m' = m" "n' = n" "c' = c"
    using assms(3) by auto
  have "all_cells (tab m n f) m n c"
    using assms(1,2) True unfolding mn
    by (intro settled_const [where orig = "cell (s r)"]) (simp_all add: all_cells_def)
  then show ?thesis
    using True by (simp add: mn)
next
  case False
  then show ?thesis using assms(1) by simp
qed

lemma all_cells_shape: "all_cells g m n c \<Longrightarrow> shape g m n"
  by (simp add: all_cells_def)

lemma GetVelocityXAtLocalPos_uniform:
  assumes "all_cells (s ha) 8 9 a"
  shows "GetVelocityXAtLocalPos localPos ha s = Some a"
  using GetVelocityXAtLocalPos_eq [where s = s and ha = ha, OF all_cells_shape [OF assms]]
  unfolding sampleX_uniform [OF assms] .

lemma GetVelocityYAtLocalPos_uniform:
  assumes "all_cells (s va) 9 8 b"
  shows "GetVelocityYAtLocalPos localPos va s = Some b"
  using GetVelocityYAtLocalPos_eq [where s = s and va = va, OF all_cells_shape [OF assms]]
  unfolding sampleY_uniform [OF assms] .

lemma load_uniform:
  assumes "all_cells (s r) m n c" "0 \<le> i" "i < int m" "0 \<le> j" "j < int n"
  shows "load s r i j = Some c"
  using assms by (simp add: load_shape [where s = s and r = r, OF all_cells_shape [OF assms(1)]] all_cells_def)

lemma uniform_advect_loop_V:
  assumes ha: "all_cells (s ha) 8 9 a" and va: "all_cells (s va) 9 8 b" and sh: "shape (s vT) 9 8"
  shows "for_each [0..gridSize] (\<lambda>row.
           for_each [0..gridSize - 1] (\<lambda>col s. do {
             let pos = (of_int col + 0.5, of_int row);
             velX \<leftarrow> GetVelocityXAtLocalPos pos ha s;
             velY \<leftarrow> GetVelocityYAtLocalPos pos va s;
             let pos = (fst pos - DELTA_TIME * velX, snd pos - DELTA_TIME * velY);
             newVel \<leftarrow> GetVelocityYAtLocalPos pos va s;
             save s vT row col newVel
           })) s =
         Some (s(vT := replicate 9 (replicate 8 b)))"
proof -
  have ne: "vT = ha \<Longrightarrow> False"
    using sh all_cells_shape [OF ha] by (auto dest: shape_neq_rows)
  let ?F = "\<lambda>(_::int) (_::int). b"
  have "for_each [0..8] (\<lambda>row.
           for_each [0..7] (\<lambda>col s. do {
             let pos = (of_int col + 0.5, of_int row);
             velX \<leftarrow> GetVelocityXAtLocalPos pos ha s;
             velY \<leftarrow> GetVelocityYAtLocalPos pos va s;
             let pos = (fst pos - DELTA_TIME * velX, snd pos - DELTA_TIME * velY);
             newVel \<leftarrow> GetVelocityYAtLocalPos pos va s;
             save s vT row col newVel
           })) s =
     Some (s(vT := tab 9 8 (\<lambda>i j. if i \<in> set [0..8] \<and> j \<in> set [0..7] \<and> True then ?F i j else cell (s vT) i j)))"
  proof (rule nest_loop_shape [where st = s and t = vT and g = "\<lambda>_ _. True" and F = ?F])
    show "shape (s vT) 9 8" by (rule sh)
  next
    fix f i j
    assume ij: "i \<in> set [0..8]" "j \<in> set [0..7]"
      and st: "settled (\<lambda>_ _. True) ?F (cell (s vT)) f"
    let ?s = "s(vT := tab 9 8 f)"
    have A: "all_cells (?s ha) 8 9 a"
      by (rule all_cells_upd [where s = s and r = ha and t = vT, OF ha st]) (use ne in auto)
    have B: "all_cells (?s va) 9 8 b"
      by (rule all_cells_upd [where s = s and r = va and t = vT, OF va st]) simp
    show "do {
             let pos = (of_int j + 0.5, of_int i);
             velX \<leftarrow> GetVelocityXAtLocalPos pos ha ?s;
             velY \<leftarrow> GetVelocityYAtLocalPos pos va ?s;
             let pos = (fst pos - DELTA_TIME * velX, snd pos - DELTA_TIME * velY);
             newVel \<leftarrow> GetVelocityYAtLocalPos pos va ?s;
             save ?s vT i j newVel
           } =
          Some (s(vT := tab 9 8 (\<lambda>i' j'. if i' = i \<and> j' = j \<and> True then ?F i j else f i' j')))"
      using ij
      by (simp add: GetVelocityXAtLocalPos_uniform [where s = ?s and ha = ha, OF A]
          GetVelocityYAtLocalPos_uniform [where s = ?s and va = va, OF B] save_tab Let_def)
  qed simp_all
  then show ?thesis
    using tab_range [where m = 9 and n = 8 and F = ?F] by (simp add: gridSize_def tab_const)
qed

lemma uniform_advect_loop_H:
  assumes ha: "all_cells (s ha) 8 9 a" and va: "all_cells (s va) 9 8 b" and sh: "shape (s hT) 8 9"
  shows "for_each [0..gridSize - 1] (\<lambda>row.
           for_each [0..gridSize] (\<lambda>col s. do {
             let pos = (of_int col, of_int row + 0.5);
             velX \<leftarrow> GetVelocityXAtLocalPos pos ha s;
             velY \<leftarrow> GetVelocityYAtLocalPos pos va s;
             let pos = (fst pos - DELTA_TIME * velX, snd pos - DELTA_TIME * velY);
             newVel \<leftarrow> GetVelocityXAtLocalPos pos ha s;
             save s hT row col newVel
           })) s =
         Some (s(hT := replicate 8 (replicate 9 a)))"
proof -
  have ne: "hT = va \<Longrightarrow> False"
    using sh all_cells_shape [OF va] by (auto dest: shape_neq_rows)
  let ?F = "\<lambda>(_::int) (_::int). a"
  have "for_each [0..7] (\<lambda>row.
           for_each [0..8] (\<lambda>col s. do {
             let pos = (of_int col, of_int row + 0.5);
             velX \<leftarrow> GetVelocityXAtLocalPos pos ha s;
             velY \<leftarrow> GetVelocityYAtLocalPos pos va s;
             let pos = (fst pos - DELTA_TIME * velX, snd pos - DELTA_TIME * velY);
             newVel \<leftarrow> GetVelocityXAtLocalPos pos ha s;
             save s hT row col newVel
           })) s =
     Some (s(hT := tab 8 9 (\<lambda>i j. if i \<in> set [0..7] \<and> j \<in> set [0..8] \<and> True then ?F i j else cell (s hT) i j)))"
  proof (rule nest_loop_shape [where st = s and t = hT and g = "\<lambda>_ _. True" and F = ?F])
    show "shape (s hT) 8 9" by (rule sh)
  next
    fix f i j
    assume ij: "i \<in> set [0..7]" "j \<in> set [0..8]"
      and st: "settled (\<lambda>_ _. True) ?F (cell (s hT)) f"
    let ?s = "s(hT := tab 8 9 f)"
    have A: "all_cells (?s ha) 8 9 a"
      by (rule all_cells_upd [where s = s and r = ha and t = hT, OF ha st]) simp
    have B: "all_cells (?s va) 9 8 b"
      by (rule all_cells_upd [where s = s and r = va and t = hT, OF va st]) (use ne in auto)
    show "do {
             let pos = (of_int j, of_int i + 0.5);
             velX \<leftarrow> GetVelocityXAtLocalPos pos ha ?s;
             velY \<leftarrow> GetVelocityYAtLocalPos pos va ?s;
             let pos = (fst pos - DELTA_TIME * velX, snd pos - DELTA_TIME * velY);
             newVel \<leftarrow> GetVelocityXAtLocalPos pos ha ?s;
             save ?s hT i j newVel
           } =
          Some (s(hT := tab 8 9 (\<lambda>i' j'. if i' = i \<and> j' = j \<and> True then ?F i j else f i' j')))"
      using ij
      by (simp add: GetVelocityXAtLocalPos_uniform [where s = ?s and ha = ha, OF A]
          GetVelocityYAtLocalPos_uniform [where s = ?s and va = va, OF B] save_tab Let_def)
  qed simp_all
  then show ?thesis
    using tab_range [where m = 8 and n = 9 and F = ?F] by (simp add: gridSize_def tab_const)
qed

lemma uniform_copy_loop:
  assumes src: "all_cells (s src) m n c" and dst: "all_cells (s dst) m n c"
    and rc: "distinct rows" "distinct cols" "set rows = {0..<int m}" "set cols = {0..<int n}"
  shows "for_each rows (\<lambda>row.
           for_each cols (\<lambda>col s. do {
             v \<leftarrow> load s src row col;
             save s dst row col v
           })) s = Some s"
proof -
  let ?F = "\<lambda>(_::int) (_::int). c"
  have "for_each rows (\<lambda>row.
           for_each cols (\<lambda>col s. do {
             v \<leftarrow> load s src row col;
             save s dst row col v
           })) s =
     Some (s(dst := tab m n (\<lambda>i j. if i \<in> set rows \<and> j \<in> set cols \<and> True then ?F i j else cell (s dst) i j)))"
  proof (rule nest_loop_shape [where st = s and t = dst and g = "\<lambda>_ _. True" and F = ?F])
    show "shape (s dst) m n" by (rule all_cells_shape [OF dst])
  next
    fix f i j
    assume ij: "i \<in> set rows" "j \<in> set cols"
      and st: "settled (\<lambda>_ _. True) ?F (cell (s dst)) f"
    let ?s = "s(dst := tab m n f)"
    have A: "all_cells (?s src) m n c"
      by (rule all_cells_upd [where s = s and r = src and t = dst, OF src st]) simp
    have "load ?s src i j = Some c"
      using ij rc(3,4) by (intro load_uniform [where s = ?s and r = src, OF A]) auto
    then show "do {
             v \<leftarrow> load ?s src i j;
             save ?s dst i j v
           } =
          Some (s(dst := tab m n (\<lambda>i' j'. if i' = i \<and> j' = j \<and> True then ?F i j else f i' j')))"
      using ij rc(3,4) by (simp add: save_tab)
  qed (simp_all add: rc)
  moreover have "tab m n (\<lambda>i j. if i \<in> set rows \<and> j \<in> set cols \<and> True then ?F i j else cell (s dst) i j) = tab m n ?F"
    by (rule tab_cong) (simp add: rc)
  moreover have "s(dst := tab m n ?F) = s"
    using dst by (intro fun_upd_idem) (simp add: all_cells_eq tab_const)
  ultimately show ?thesis
    by simp
qed

lemma AdvectVelocities_uniform:
  assumes ha: "all_cells (s ha) 8 9 a" and va: "all_cells (s va) 9 8 b"
    and sh: "shape (s hT) 8 9" "shape (s vT) 9 8"
  shows "AdvectVelocities ha hT va vT s =
     Some (s(vT := replicate 9 (replicate 8 b), hT := replicate 8 (replicate 9 a)))"
proof -
  have ne: "ha \<noteq> va" "ha \<noteq> vT" "hT \<noteq> va" "hT \<noteq> vT"
    using sh all_cells_shape [OF ha] all_cells_shape [OF va] by (auto dest: shape_neq_rows)
  let ?V = "replicate 9 (replicate 8 b)"
  let ?H = "replicate 8 (replicate 9 a)"
  let ?s1 = "s(vT := ?V)"
  let ?s2 = "?s1(hT := ?H)"
  have l1: "for_each [0..gridSize] (\<lambda>row.
           for_each [0..gridSize - 1] (\<lambda>col s. do {
             let pos = (of_int col + 0.5, of_int row);
             velX \<leftarrow> GetVelocityXAtLocalPos pos ha s;
             velY \<leftarrow> GetVelocityYAtLocalPos pos va s;
             let pos = (fst pos - DELTA_TIME * velX, snd pos - DELTA_TIME * velY);
             newVel \<leftarrow> GetVelocityYAtLocalPos pos va s;
             save s vT row col newVel
           })) s = Some ?s1"
    using ha va sh(2) by (rule uniform_advect_loop_V)
  have ha1: "all_cells (?s1 ha) 8 9 a"
    using ha ne by simp
  have va1: "all_cells (?s1 va) 9 8 b"
    using va by (simp add: all_cells_replicate)
  have vT1: "all_cells (?s1 vT) 9 8 b"
    by (simp add: all_cells_replicate)
  have sh1: "shape (?s1 hT) 8 9"
    using sh ne by simp
  have l2: "for_each [0..gridSize - 1] (\<lambda>row.
           for_each [0..gridSize] (\<lambda>col s. do {
             let pos = (of_int col, of_int row + 0.5);
             velX \<leftarrow> GetVelocityXAtLocalPos pos ha s;
             velY \<leftarrow> GetVelocityYAtLocalPos pos va s;
             let pos = (fst pos - DELTA_TIME * velX, snd pos - DELTA_TIME * velY);
             newVel \<leftarrow> GetVelocityXAtLocalPos pos ha s;
             save s hT row col newVel
           })) ?s1 = Some ?s2"
    using ha1 va1 sh1 by (rule uniform_advect_loop_H [where s = ?s1])
  have ha2: "all_cells (?s2 ha) 8 9 a"
    using ha1 by (simp add: all_cells_replicate)
  have hT2: "all_cells (?s2 hT) 8 9 a"
    by (simp add: all_cells_replicate)
  have va2: "all_cells (?s2 va) 9 8 b"
    using va1 ne by simp
  have vT2: "all_cells (?s2 vT) 9 8 b"
    using vT1 ne by simp
  have l3: "for_each [0..gridSize] (\<lambda>row.
           for_each [0..gridSize - 1] (\<lambda>col s. do {
             v \<leftarrow> load s vT row col;
             save s va row col v
           })) ?s2 = Some ?s2"
    using vT2 va2 by (rule uniform_copy_loop [where s = ?s2]) (auto simp: gridSize_def)
  have l4: "for_each [0..gridSize - 1] (\<lambda>row.
           for_each [0..gridSize] (\<lambda>col s. do {
             v \<leftarrow> load s hT row col;
             save s ha row col v
           })) ?s2 = Some ?s2"
    using hT2 ha2 by (rule uniform_copy_loop [where s = ?s2]) (auto simp: gridSize_def)
  show ?thesis
    unfolding AdvectVelocities_def by (simp only: l1 l2 l3 l4 Option.bind.simps)
qed

section \<open>The advection step never leaves the arrays\<close>

lemma for_each_pres:
  assumes "\<And>i s. i \<in> set xs \<Longrightarrow> P s \<Longrightarrow> \<exists>s'. body i s = Some s' \<and> P s'"
  shows "P s \<Longrightarrow> \<exists>s'. for_each xs body s = Some s' \<and> P s'"
  using assms
proof (induction xs arbitrary: s)
  case Nil
  then show ?case by simp
next
  case (Cons x xs)
  from Cons.prems obtain s1 where s1: "body x s = Some s1" "P s1"
    by (meson list.set_intros(1))
  have "\<exists>s'. for_each xs body s1 = Some s' \<and> P s'"
    using s1(2) Cons.prems(2) by (intro Cons.IH) auto
  then show ?case
    using s1 by simp
qed

lemma save_pres:
  assumes "shape (s r) m n" "0 \<le> i" "i < int m" "0 \<le> j" "j < int n"
  shows "\<exists>s'. save (s :: ref \<Rightarrow> 'a list list) r i j v = Some s' \<and> (\<forall>q m' n'. shape (s' q) m' n' = shape (s q) m' n')"
proof -
  have "s(r := tab m n (cell (s r))) = s"
    using assms(1) by (simp add: tab_cell)
  then have "save s r i j v =
     Some (s(r := tab m n (\<lambda>i' j'. if i' = i \<and> j' = j then v else cell (s r) i' j')))"
    using assms(2-) save_tab [of s r m n "cell (s r)" i j v] by simp
  moreover have "shape (tab m n f) m' n' = shape (s r) m' n'" for f :: "int \<Rightarrow> int \<Rightarrow> 'a" and m' n'
    using assms(1,2,3) shape_tab [of m n f] unfolding shape_def
    by (metis length_0_conv list.set_sel(1))
  ultimately show ?thesis
    by simp
qed

lemma nest_pres:
  assumes "\<And>i j s. i \<in> set rows \<Longrightarrow> j \<in> set cols \<Longrightarrow> P s \<Longrightarrow> \<exists>s'. body i j s = Some s' \<and> P s'"
    and "P s"
  shows "\<exists>s'. for_each rows (\<lambda>row. for_each cols (body row)) s = Some s' \<and> P s'"
proof (rule for_each_pres [where P = P])
  fix i s
  assume "i \<in> set rows" "P s"
  then show "\<exists>s'. for_each cols (body i) s = Some s' \<and> P s'"
    using assms(1) by (intro for_each_pres [where P = P]) auto
qed (rule assms(2))

lemma advect_shapes_save:
  assumes "advect_shapes ha hT va vT s" "shape (s r) m n" "0 \<le> i" "i < int m" "0 \<le> j" "j < int n"
  shows "\<exists>s'. save s r i j v = Some s' \<and> advect_shapes ha hT va vT s'"
  using save_pres [where s = s and r = r and v = v, OF assms(2-)] assms(1)
  unfolding advect_shapes_def by auto

lemma AdvectVelocities_total:
  assumes P: "advect_shapes ha hT va vT s"
  shows "\<exists>s'. AdvectVelocities ha hT va vT s = Some s'"
proof -
  let ?P = "advect_shapes ha hT va vT"
  have "\<exists>s1. for_each [0..gridSize] (\<lambda>row.
           for_each [0..gridSize - 1] (\<lambda>col s. do {
             let pos = (of_int col + 0.5, of_int row);
             velX \<leftarrow> GetVelocityXAtLocalPos pos ha s;
             velY \<leftarrow> GetVelocityYAtLocalPos pos va s;
             let pos = (fst pos - DELTA_TIME * velX, snd pos - DELTA_TIME * velY);
             newVel \<leftarrow> GetVelocityYAtLocalPos pos va s;
             save s vT row col newVel
           })) s = Some s1 \<and> ?P s1"
  proof (rule nest_pres [where P = ?P, OF _ P])
    fix i j :: int and s
    assume ij: "i \<in> set [0..gridSize]" "j \<in> set [0..gridSize - 1]" and s: "?P s"
    then have sh: "shape (s ha) 8 9" "shape (s va) 9 8" "shape (s vT) 9 8"
      by (simp_all add: advect_shapes_def)
    have "\<exists>s'. save s vT i j v = Some s' \<and> ?P s'" for v
      using ij by (intro advect_shapes_save [where s = s, OF s sh(3)]) (simp_all add: gridSize_def)
    then show "\<exists>s'. do {
             let pos = (of_int j + 0.5, of_int i);
             velX \<leftarrow> GetVelocityXAtLocalPos pos ha s;
             velY \<leftarrow> GetVelocityYAtLocalPos pos va s;
             let pos = (fst pos - DELTA_TIME * velX, snd pos - DELTA_TIME * velY);
             newVel \<leftarrow> GetVelocityYAtLocalPos pos va s;
             save s vT i j newVel
           } = Some s' \<and> ?P s'"
      by (simp add: GetVelocityXAtLocalPos_eq [where s = s and ha = ha, OF sh(1)]
          GetVelocityYAtLocalPos_eq [where s = s and va = va, OF sh(2)] Let_def)
  qed
  then obtain s1 where l1: "for_each [0..gridSize] (\<lambda>row.
           for_each [0..gridSize - 1] (\<lambda>col s. do {
             let pos = (of_int col + 0.5, of_int row);
             velX \<leftarrow> GetVelocityXAtLocalPos pos ha s;
             velY \<leftarrow> GetVelocityYAtLocalPos pos va s;
             let pos = (fst pos - DELTA_TIME * velX, snd pos - DELTA_TIME * velY);
             newVel \<leftarrow> GetVelocityYAtLocalPos pos va s;
             save s vT row col newVel
           })) s = Some s1" and P1: "?P s1"
    by blast
  have "\<exists>s2. for_each [0..gridSize - 1] (\<lambda>row.
           for_each [0..gridSize] (\<lambda>col s. do {
             let pos = (of_int col, of_int row + 0.5);
             velX \<leftarrow> GetVelocityXAtLocalPos pos ha s;
             velY \<leftarrow> GetVelocityYAtLocalPos pos va s;
             let pos = (fst pos - DELTA_TIME * velX, snd pos - DELTA_TIME * velY);
             newVel \<leftarrow> GetVelocityXAtLocalPos pos ha s;
             save s hT row col newVel
           })) s1 = Some s2 \<and> ?P s2"
  proof (rule nest_pres [where P = ?P, OF _ P1])
    fix i j :: int and s
    assume ij: "i \<in> set [0..gridSize - 1]" "j \<in> set [0..gridSize]" and s: "?P s"
    then have sh: "shape (s ha) 8 9" "shape (s va) 9 8" "shape (s hT) 8 9"
      by (simp_all add: advect_shapes_def)
    have "\<exists>s'. save s hT i j v = Some s' \<and> ?P s'" for v
      using ij by (intro advect_shapes_save [where s = s, OF s sh(3)]) (simp_all add: gridSize_def)
    then show "\<exists>s'. do {
             let pos = (of_int j, of_int i + 0.5);
             velX \<leftarrow> GetVelocityXAtLocalPos pos ha s;
             velY \<leftarrow> GetVelocityYAtLocalPos pos va s;
             let pos = (fst pos - DELTA_TIME * velX, snd pos - DELTA_TIME * velY);
             newVel \<leftarrow> GetVelocityXAtLocalPos pos ha s;
             save s hT i j newVel
           } = Some s' \<and> ?P s'"
      by (simp add: GetVelocityXAtLocalPos_eq [where s = s and ha = ha, OF sh(1)]
          GetVelocityYAtLocalPos_eq [where s = s and va = va, OF sh(2)] Let_def)
  qed
  then obtain s2 where l2: "for_each [0..gridSize - 1] (\<lambda>row.
           for_each [0..gridSize] (\<lambda>col s. do {
             let pos = (of_int col, of_int row + 0.5);
             velX \<leftarrow> GetVelocityXAtLocalPos pos ha s;
             velY \<leftarrow> GetVelocityYAtLocalPos pos va s;
             let pos = (fst pos - DELTA_TIME * velX, snd pos - DELTA_TIME * velY);
             newVel \<leftarrow> GetVelocityXAtLocalPos pos ha s;
             save s hT row col newVel
           })) s1 = Some s2" and P2: "?P s2"
    by blast
  have "\<exists>s3. for_each [0..gridSize] (\<lambda>row.
           for_each [0..gridSize - 1] (\<lambda>col s. do {
             v \<leftarrow> load s vT row col;
             save s va row col v
           })) s2 = Some s3 \<and> ?P s3"
  proof (rule nest_pres [where P = ?P, OF _ P2])
    fix i j :: int and s
    assume ij: "i \<in> set [0..gridSize]" "j \<in> set [0..gridSize - 1]" and s: "?P s"
    then have sh: "shape (s vT) 9 8" "shape (s va) 9 8"
      by (simp_all add: advect_shapes_def)
    have "\<exists>s'. save s va i j v = Some s' \<and> ?P s'" for v
      using ij by (intro advect_shapes_save [where s = s, OF s sh(2)]) (simp_all add: gridSize_def)
    then show "\<exists>s'. do {
             v \<leftarrow> load s vT i j;
             save s va i j v
           } = Some s' \<and> ?P s'"
      using ij by (simp add: load_shape [where s = s and r = vT, OF sh(1)] gridSize_def)
  qed
  then obtain s3 where l3: "for_each [0..gridSize] (\<lambda>row.
           for_each [0..gridSize - 1] (\<lambda>col s. do {
             v \<leftarrow> load s vT row col;
             save s va row col v
           })) s2 = Some s3" and P3: "?P s3"
    by blast
  have "\<exists>s4. for_each [0..gridSize - 1] (\<lambda>row.
           for_each [0..gridSize] (\<lambda>col s. do {
             v \<leftarrow> load s hT row col;
             save s ha row col v
           })) s3 = Some s4 \<and> ?P s4"
  proof (rule nest_pres [where P = ?P, OF _ P3])
    fix i j :: int and s
    assume ij: "i \<in> set [0..gridSize - 1]" "j \<in> set [0..gridSize]" and s: "?P s"
    then have sh: "shape (s hT) 8 9" "shape (s ha) 8 9"
      by (simp_all add: advect_shapes_def)
    have "\<exists>s'. save s ha i j v = Some s' \<and> ?P s'" for v
      using ij by (intro advect_shapes_save [where s = s, OF s sh(2)]) (simp_all add: gridSize_def)
    then show "\<exists>s'. do {
             v \<leftarrow> load s hT i j;
             save s ha i j v
           } = Some s' \<and> ?P s'"
      using ij by (simp add: load_shape [where s = s and r = hT, OF sh(1)] gridSize_def)
  qed
  then obtain s4 where l4: "for_each [0..gridSize - 1] (\<lambda>row.
           for_each [0..gridSize] (\<lambda>col s. do {
             v \<leftarrow> load s hT row col;
             save s ha row col v
           })) s3 = Some s4"
    by blast
  show ?thesis
    unfolding AdvectVelocities_def by (simp only: l1 l2 l3 l4 Option.bind.simps) blast
qed

section \<open>Advection at the walls\<close>

lemma lerp_0: "lerp a b 0 = a"
  by (simp add: lerp_def)

lemma sampleX_wall:
  assumes "\<And>i. 0 \<le> i \<Longrightarrow> i \<le> 7 \<Longrightarrow> cell g i 0 = 0 \<and> cell g i 8 = 0"
  shows "sampleX g (0, y) = 0" "sampleX g (8, y) = 0"
proof -
  have b: "cell g (max 0 (min 7 k)) 0 = 0" "cell g (max 0 (min 7 k)) 8 = 0" for k
    using assms [of "max 0 (min 7 k)"] by simp_all
  show "sampleX g (0, y) = 0"
    by (simp add: sampleX_def X_indices_eq Let_def lerp_0 lerp_same b)
  show "sampleX g (8, y) = 0"
    by (simp add: sampleX_def X_indices_eq Let_def lerp_0 lerp_same b)
qed

lemma sampleY_wall:
  assumes "\<And>j. 0 \<le> j \<Longrightarrow> j \<le> 7 \<Longrightarrow> cell g 0 j = 0 \<and> cell g 8 j = 0"
  shows "sampleY g (x, 0) = 0" "sampleY g (x, 8) = 0"
proof -
  have b: "cell g 0 (max 0 (min 7 k)) = 0" "cell g 8 (max 0 (min 7 k)) = 0" for k
    using assms [of "max 0 (min 7 k)"] by simp_all
  show "sampleY g (x, 0) = 0"
    by (simp add: sampleY_def Y_indices_eq Let_def lerp_0 lerp_same b)
  show "sampleY g (x, 8) = 0"
    by (simp add: sampleY_def Y_indices_eq Let_def lerp_0 lerp_same b)
qed

lemma advect_horizontal_wall:
  assumes "\<And>i. 0 \<le> i \<Longrightarrow> i \<le> 7 \<Longrightarrow> cell hv i 0 = 0 \<and> cell hv i 8 = 0"
  shows "advect_horizontal hv vv row 0 = 0" "advect_horizontal hv vv row 8 = 0"
  by (simp_all add: advect_horizontal_def backtrack_def sampleX_wall [OF assms])

lemma advect_vertical_wall:
  assumes "\<And>j. 0 \<le> j \<Longrightarrow> j \<le> 7 \<Longrightarrow> cell vv 0 j = 0 \<and> cell vv 8 j = 0"
  shows "advect_vertical hv vv 0 col = 0" "advect_vertical hv vv 8 col = 0"
  by (simp_all add: advect_vertical_def backtrack_def sampleY_wall [OF assms])

section \<open>The state of rest and the response to one moving face\<close>

lemma all_cells_cell:
  "all_cells g m n c \<Longrightarrow> 0 \<le> i \<Longrightarrow> i < int m \<Longrightarrow> 0 \<le> j \<Longrightarrow> j < int n \<Longrightarrow> cell g i j = c"
  by (simp add: all_cells_def)

lemma SolvePressureRedBlack_zero:
  assumes z: "all_cells (s cv) 8 8 0" "all_cells (s ha) 8 9 0" "all_cells (s va) 9 8 0"
  shows "SolvePressureRedBlack cv ha va s = Some s"
proof -
  let ?Z = "\<lambda>(_::int) (_::int). 0::real"
  have "tab 8 8 (relax_class 1 (relax_class 0 (cell (s cv)) (cell (s ha)) (cell (s va)))
                              (cell (s ha)) (cell (s va))) =
        tab 8 8 (relax_class 1 (relax_class 0 ?Z ?Z ?Z) ?Z ?Z)"
    using z by (intro sweep_cong) (simp_all add: all_cells_cell)
  also have "\<dots> = tab 8 8 ?Z"
    by (rule tab_cong) (simp add: relax_class_def stored_pressure_def)
  also have "\<dots> = s cv"
    using z(1) by (simp add: all_cells_eq tab_const)
  finally show ?thesis
    using SolvePressureRedBlack_eq [where s = s and cv = cv and ha = ha and va = va,
        OF all_cells_shape [OF z(1)] all_cells_shape [OF z(2)] all_cells_shape [OF z(3)]]
    by simp
qed

lemma CalculateVelocities_zero:
  assumes z: "all_cells (s cv) 8 8 0" "all_cells (s ha) 8 9 0" "all_cells (s va) 9 8 0"
  shows "CalculateVelocities cv ha va s = Some s"
proof -
  let ?Z = "\<lambda>(_::int) (_::int). 0::real"
  have "tab 9 8 (projectV (s cv) (s va)) = tab 9 8 ?Z"
    using z by (intro tab_cong) (simp add: projectV_def all_cells_cell)
  then have v: "tab 9 8 (projectV (s cv) (s va)) = s va"
    using z(3) by (simp add: all_cells_eq tab_const)
  have "tab 8 9 (projectH (s cv) (s ha)) = tab 8 9 ?Z"
    using z by (intro tab_cong) (simp add: projectH_def all_cells_cell)
  then have h: "tab 8 9 (projectH (s cv) (s ha)) = s ha"
    using z(2) by (simp add: all_cells_eq tab_const)
  show ?thesis
    using CalculateVelocities_eq [where s = s and cv = cv and ha = ha and va = va,
        OF all_cells_shape [OF z(1)] all_cells_shape [OF z(2)] all_cells_shape [OF z(3)]]
    unfolding v h by simp
qed

lemma red_one_face:
  assumes "c \<noteq> 8"
  shows "relax_class 0 (\<lambda>_ _. 0) (one_face r c x) (\<lambda>_ _. 0) i j =
     (if (i + j) AND 1 = 0
      then (if i = r \<and> j = c - 1 then - (DENSITY * DELTA_X * x / DELTA_TIME) / 4
            else if i = r \<and> j = c then DENSITY * DELTA_X * x / DELTA_TIME / 4 else 0)
      else 0)"
  using assms by (auto simp: relax_class_def stored_pressure_def one_face_def)

lemma sweep_one_face:
  fixes r c :: int and x :: real
  assumes rc: "0 < c" "c \<le> 7"
  defines "P \<equiv> relax_class 1 (relax_class 0 (\<lambda>_ _. 0) (one_face r c x) (\<lambda>_ _. 0))
                    (one_face r c x) (\<lambda>_ _. 0)"
    and "K \<equiv> DENSITY * DELTA_X * x / DELTA_TIME"
  shows "P r c = (if (r + c) AND 1 = 0 then K / 4 else ((if c = 7 then 0 else - K / 4) + K) / 4)"
    and "P r (c - 1) = (if (r + c) AND 1 = 0 then ((if c = 1 then 0 else K / 4) - K) / 4 else - K / 4)"
proof -
  have c8: "c \<noteq> 8" using rc by simp
  have "(r + c) AND 1 = 0 \<or> (r + c) AND 1 = 1"
    by (simp add: and_one_eq) presburger
  then consider (even) "(r + c) AND 1 = 0" | (odd) "(r + c) AND 1 = 1"
    by blast
  then have "P r c = (if (r + c) AND 1 = 0 then K / 4 else ((if c = 7 then 0 else - K / 4) + K) / 4) \<and>
     P r (c - 1) = (if (r + c) AND 1 = 0 then ((if c = 1 then 0 else K / 4) - K) / 4 else - K / 4)"
  proof cases
    case even
    then have par: "(r + (c - 1)) AND 1 = 1" "(r + (c - 2)) AND 1 = 0"
      "(r - 1 + (c - 1)) AND 1 = 0" "(r + 1 + (c - 1)) AND 1 = 0"
      by (simp_all add: and_one_eq) presburger+
    have "P r c = K / 4"
      using even rc c8 unfolding P_def K_def
      by (subst relax_class_def) (simp add: red_one_face)
    moreover have "P r (c - 1) = ((if c = 1 then 0 else K / 4) - K) / 4"
      using par rc c8 unfolding P_def K_def
      by (subst relax_class_def, subst stored_pressure_def)
         (auto simp: red_one_face one_face_def algebra_simps)
    ultimately show ?thesis using even by simp
  next
    case odd
    then have par: "(r + (c - 1)) AND 1 = 0" "(r + (c + 1)) AND 1 = 0"
      "(r - 1 + c) AND 1 = 0" "(r + 1 + c) AND 1 = 0"
      by (simp_all add: and_one_eq) presburger+
    have "P r (c - 1) = - K / 4"
      using par rc c8 unfolding P_def K_def
      by (subst relax_class_def) (simp add: red_one_face)
    moreover have "P r c = ((if c = 7 then 0 else - K / 4) + K) / 4"
      using odd par rc c8 unfolding P_def K_def
      by (subst relax_class_def, subst stored_pressure_def)
         (auto simp: red_one_face one_face_def algebra_simps)
    ultimately show ?thesis using odd by simp
  qed
  then show "P r c = (if (r + c) AND 1 = 0 then K / 4 else ((if c = 7 then 0 else - K / 4) + K) / 4)"
    and "P r (c - 1) = (if (r + c) AND 1 = 0 then ((if c = 1 then 0 else K / 4) - K) / 4 else - K / 4)"
    by simp_all
qed

lemma demo_store_shape:
  "shape (demo_store 0) 8 8" "shape (demo_store 1) 8 9" "shape (demo_store 2) 9 8"
  "shape (demo_store 3) 8 9" "shape (demo_store 4) 9 8"
  by (simp_all add: demo_store_def shape_tab)

lemma uniform_store_cells:
  "all_cells (uniform_store 0) 8 8 0" "all_cells (uniform_store 1) 8 9 1"
  "all_cells (uniform_store 2) 9 8 0" "all_cells (uniform_store 3) 8 9 0"
  "all_cells (uniform_store 4) 9 8 0"
  by (simp_all add: uniform_store_def all_cells_replicate)

lemma edge_store_shape:
  "shape (edge_store 0) 8 8" "shape (edge_store 1) 8 9" "shape (edge_store 2) 9 8"
  by (simp_all add: edge_store_def shape_tab)

section \<open>Walls, one moving face, and the cell update of the specification\<close>

lemma bounded_entries_tab:
  assumes "\<And>i j. \<bar>f i j\<bar> \<le> B"
  shows "bounded_entries (tab m n f) B"
  using assms by (auto simp: bounded_entries_def tab_def)

lemma demo_store_bounded:
  "bounded_entries (demo_store 1) (10 ^ 300)" "bounded_entries (demo_store 2) (10 ^ 300)"
  by (simp_all add: demo_store_def bounded_entries_tab)

lemma boundary_zero_tab:
  assumes "\<And>i. 0 \<le> i \<Longrightarrow> i \<le> 7 \<Longrightarrow> H i 0 = 0 \<and> H i 8 = 0"
    and "\<And>j. 0 \<le> j \<Longrightarrow> j \<le> 7 \<Longrightarrow> V 0 j = 0 \<and> V 8 j = 0"
    and "s ha = tab 8 9 H" "s va = tab 9 8 V"
  shows "boundary_zero s ha va"
  unfolding boundary_zero_def load_def assms(3,4)
  by (simp add: rd_tab assms(1,2))

lemma boundary_zero_cells:
  assumes "boundary_zero s ha va" "shape (s ha) 8 9" "shape (s va) 9 8"
  shows "0 \<le> i \<Longrightarrow> i \<le> 7 \<Longrightarrow> cell (s ha) i 0 = 0 \<and> cell (s ha) i 8 = 0"
    and "0 \<le> j \<Longrightarrow> j \<le> 7 \<Longrightarrow> cell (s va) 0 j = 0 \<and> cell (s va) 8 j = 0"
proof -
  assume "0 \<le> i" "i \<le> 7"
  then have "load s ha i 0 = Some 0 \<and> load s ha i 8 = Some 0"
    using assms(1) by (simp add: boundary_zero_def)
  then show "cell (s ha) i 0 = 0 \<and> cell (s ha) i 8 = 0"
    using \<open>0 \<le> i\<close> \<open>i \<le> 7\<close> by (simp add: load_shape [where s = s and r = ha, OF assms(2)])
next
  assume "0 \<le> j" "j \<le> 7"
  then have "load s va 0 j = Some 0 \<and> load s va 8 j = Some 0"
    using assms(1) by (simp add: boundary_zero_def)
  then show "cell (s va) 0 j = 0 \<and> cell (s va) 8 j = 0"
    using \<open>0 \<le> j\<close> \<open>j \<le> 7\<close> by (simp add: load_shape [where s = s and r = va, OF assms(3)])
qed

lemma demo_store_boundary: "boundary_zero demo_store 1 2"
proof (rule boundary_zero_tab)
  show "demo_store 1 = tab 8 9 (\<lambda>i j. if i = 4 \<and> j = 4 then 1 else 0)"
    by (simp add: demo_store_def)
  show "demo_store 2 = tab 9 8 (\<lambda>i j. 0)"
    by (simp add: demo_store_def)
qed simp_all

lemma one_face_sweep_store:
  assumes "s cv = replicate 8 (replicate 8 0)"
    and "s ha = tab 8 9 (\<lambda>i j. if i = r \<and> j = c then x else 0)"
    and "s va = replicate 9 (replicate 8 0)"
  shows "SolvePressureRedBlack cv ha va s =
     Some (s(cv := tab 8 8 (relax_class 1 (relax_class 0 (\<lambda>_ _. 0) (one_face r c x) (\<lambda>_ _. 0))
                              (one_face r c x) (\<lambda>_ _. 0))))"
proof -
  have p: "all_cells (s cv) 8 8 0" and v: "all_cells (s va) 9 8 0"
    using assms(1,3) by (simp_all add: all_cells_eq)
  have h: "shape (s ha) 8 9"
    by (simp add: assms(2) shape_tab)
  have "tab 8 8 (relax_class 1 (relax_class 0 (cell (s cv)) (cell (s ha)) (cell (s va)))
                              (cell (s ha)) (cell (s va))) =
        tab 8 8 (relax_class 1 (relax_class 0 (\<lambda>_ _. 0) (one_face r c x) (\<lambda>_ _. 0))
                              (one_face r c x) (\<lambda>_ _. 0))"
    using p v by (intro sweep_cong) (simp_all add: all_cells_cell assms(2) cell_tab one_face_def)
  then show ?thesis
    using SolvePressureRedBlack_eq [where s = s and cv = cv and ha = ha and va = va,
        OF all_cells_shape [OF p] h all_cells_shape [OF v]]
    by simp
qed

lemma stored_pressure_opposite_colour:
  assumes p: "\<And>i' j'. 0 \<le> i' \<Longrightarrow> i' < 8 \<Longrightarrow> 0 \<le> j' \<Longrightarrow> j' < 8 \<Longrightarrow>
      (i' + j') AND 1 \<noteq> (i + j) AND 1 \<Longrightarrow> p i' j' = q i' j'"
    and ij: "0 \<le> i" "i < 8" "0 \<le> j" "j < 8"
  shows "stored_pressure p h v i j = stored_pressure q h v i j"
proof -
  note flip = colour_flip [of i j "(i + j) AND 1", OF refl]
  have e: "(if j = 0 \<or> j = 7 then 0 else p i (j - 1)) = (if j = 0 \<or> j = 7 then 0 else q i (j - 1))"
    "(if j = 0 \<or> j = 7 then 0 else p i (j + 1)) = (if j = 0 \<or> j = 7 then 0 else q i (j + 1))"
    "(if i = 0 \<or> i = 7 then 0 else p (i - 1) j) = (if i = 0 \<or> i = 7 then 0 else q (i - 1) j)"
    "(if i = 0 \<or> i = 7 then 0 else p (i + 1) j) = (if i = 0 \<or> i = 7 then 0 else q (i + 1) j)"
    using ij flip by (auto intro!: p)
  show ?thesis
    unfolding stored_pressure_def e ..
qed

lemma stored_pressure_interior:
  assumes "0 < row" "row < 7" "0 < col" "col < 7"
  shows "stored_pressure p h v row col = claimed_newPressure p h v row col"
  using assms
  by (simp add: stored_pressure_def claimed_newPressure_def Let_def DENSITY_def DELTA_X_def DELTA_TIME_def)

lemma stored_pressure_edge:
  assumes "0 \<le> row" "row \<le> 7" "0 \<le> col" "col \<le> 7"
  shows "stored_pressure p h v row col =
     claimed_newPressure p h v row col -
       ((if col = 0 then p row 1 else 0) + (if col = 7 then p row 6 else 0) +
        (if row = 0 then p 1 col else 0) + (if row = 7 then p 6 col else 0)) / 4"
  using assms
  by (auto simp: stored_pressure_def claimed_newPressure_def Let_def DENSITY_def DELTA_X_def DELTA_TIME_def
      field_simps)

section \<open>Walls at rest stay at rest under advection\<close>

lemma boundary_zero_frame:
  "s' ha = s ha \<Longrightarrow> s' va = s va \<Longrightarrow> boundary_zero s' ha va = boundary_zero s ha va"
  by (simp add: boundary_zero_def load_def)

lemma save_shape:
  assumes "shape (s r) m n" "0 \<le> i" "i < int m" "0 \<le> j" "j < int n"
  shows "save s r i j v = Some (s(r := tab m n (\<lambda>i' j'. if i' = i \<and> j' = j then v else cell (s r) i' j')))"
proof -
  have "s(r := tab m n (cell (s r))) = s"
    using assms(1) by (simp add: tab_cell)
  then show ?thesis
    using assms(2-) save_tab [of s r m n "cell (s r)" i j v] by simp
qed

lemma boundary_zero_upd_V:
  assumes "boundary_zero s X va" "shape (s X) 8 9" "shape (s va) 9 8"
    and "i = 0 \<or> i = 8 \<Longrightarrow> v = 0"
  shows "boundary_zero (s(va := tab 9 8 (\<lambda>i' j'. if i' = i \<and> j' = j then v else cell (s va) i' j'))) X va"
proof (rule boundary_zero_tab [where H = "cell (s X)"
      and V = "\<lambda>i' j'. if i' = i \<and> j' = j then v else cell (s va) i' j'"])
  have ne: "X \<noteq> va"
    using shape_neq_rows [where s = s, OF assms(2,3)] by simp
  show "(s(va := tab 9 8 (\<lambda>i' j'. if i' = i \<and> j' = j then v else cell (s va) i' j'))) X = tab 8 9 (cell (s X))"
    using ne assms(2) by (simp add: tab_cell)
  show "(s(va := tab 9 8 (\<lambda>i' j'. if i' = i \<and> j' = j then v else cell (s va) i' j'))) va =
        tab 9 8 (\<lambda>i' j'. if i' = i \<and> j' = j then v else cell (s va) i' j')"
    by simp
next
  fix k :: int
  assume "0 \<le> k" "k \<le> 7"
  then show "cell (s X) k 0 = 0 \<and> cell (s X) k 8 = 0"
    by (rule boundary_zero_cells(1) [where s = s and ha = X and va = va, OF assms(1,2,3)])
next
  fix k :: int
  assume k: "0 \<le> k" "k \<le> 7"
  have "cell (s va) 0 k = 0 \<and> cell (s va) 8 k = 0"
    using k by (rule boundary_zero_cells(2) [where s = s and ha = X and va = va, OF assms(1,2,3)])
  then show "(if 0 = i \<and> k = j then v else cell (s va) 0 k) = 0 \<and>
             (if 8 = i \<and> k = j then v else cell (s va) 8 k) = 0"
    using assms(4) by auto
qed

lemma boundary_zero_upd_H:
  assumes "boundary_zero s ha X" "shape (s ha) 8 9" "shape (s X) 9 8"
    and "j = 0 \<or> j = 8 \<Longrightarrow> v = 0"
  shows "boundary_zero (s(ha := tab 8 9 (\<lambda>i' j'. if i' = i \<and> j' = j then v else cell (s ha) i' j'))) ha X"
proof (rule boundary_zero_tab [where V = "cell (s X)"
      and H = "\<lambda>i' j'. if i' = i \<and> j' = j then v else cell (s ha) i' j'"])
  have ne: "ha \<noteq> X"
    using shape_neq_rows [where s = s, OF assms(2,3)] by simp
  show "(s(ha := tab 8 9 (\<lambda>i' j'. if i' = i \<and> j' = j then v else cell (s ha) i' j'))) X = tab 9 8 (cell (s X))"
    using ne assms(3) by (simp add: tab_cell)
  show "(s(ha := tab 8 9 (\<lambda>i' j'. if i' = i \<and> j' = j then v else cell (s ha) i' j'))) ha =
        tab 8 9 (\<lambda>i' j'. if i' = i \<and> j' = j then v else cell (s ha) i' j')"
    by simp
next
  fix k :: int
  assume "0 \<le> k" "k \<le> 7"
  then show "cell (s X) 0 k = 0 \<and> cell (s X) 8 k = 0"
    by (rule boundary_zero_cells(2) [where s = s and ha = ha and va = X, OF assms(1,2,3)])
next
  fix k :: int
  assume k: "0 \<le> k" "k \<le> 7"
  have "cell (s ha) k 0 = 0 \<and> cell (s ha) k 8 = 0"
    using k by (rule boundary_zero_cells(1) [where s = s and ha = ha and va = X, OF assms(1,2,3)])
  then show "(if k = i \<and> 0 = j then v else cell (s ha) k 0) = 0 \<and>
             (if k = i \<and> 8 = j then v else cell (s ha) k 8) = 0"
    using assms(4) by auto
qed

lemma advect_shapes_upd:
  assumes "advect_shapes ha hT va vT s" "shape (s r) m n" "0 \<le> i" "i < int m" "0 \<le> j" "j < int n"
  shows "advect_shapes ha hT va vT (s(r := tab m n (\<lambda>i' j'. if i' = i \<and> j' = j then v else cell (s r) i' j')))"
  using advect_shapes_save [where s = s and r = r and v = v, OF assms]
  unfolding save_shape [where s = s and r = r and v = v, OF assms(2-)] by simp

lemma walls_loop_V:
  assumes sh: "advect_shapes ha hT va vT s" and bz: "boundary_zero s ha va"
  shows "\<exists>s1. for_each [0..gridSize] (\<lambda>row.
           for_each [0..gridSize - 1] (\<lambda>col s. do {
             let pos = (of_int col + 0.5, of_int row);
             velX \<leftarrow> GetVelocityXAtLocalPos pos ha s;
             velY \<leftarrow> GetVelocityYAtLocalPos pos va s;
             let pos = (fst pos - DELTA_TIME * velX, snd pos - DELTA_TIME * velY);
             newVel \<leftarrow> GetVelocityYAtLocalPos pos va s;
             save s vT row col newVel
           })) s = Some s1 \<and>
         advect_shapes ha hT va vT s1 \<and> boundary_zero s1 ha va \<and> boundary_zero s1 ha vT"
proof (cases "vT = va")
  case True
  let ?P = "\<lambda>s. advect_shapes ha hT va vT s \<and> boundary_zero s ha va"
  have "\<exists>s1. for_each [0..gridSize] (\<lambda>row.
           for_each [0..gridSize - 1] (\<lambda>col s. do {
             let pos = (of_int col + 0.5, of_int row);
             velX \<leftarrow> GetVelocityXAtLocalPos pos ha s;
             velY \<leftarrow> GetVelocityYAtLocalPos pos va s;
             let pos = (fst pos - DELTA_TIME * velX, snd pos - DELTA_TIME * velY);
             newVel \<leftarrow> GetVelocityYAtLocalPos pos va s;
             save s vT row col newVel
           })) s = Some s1 \<and> ?P s1"
  proof (rule nest_pres [where P = ?P])
    fix i j :: int and s
    assume ij: "i \<in> set [0..gridSize]" "j \<in> set [0..gridSize - 1]" and P: "?P s"
    then have shs: "shape (s ha) 8 9" "shape (s va) 9 8" and as: "advect_shapes ha hT va vT s"
      and b: "boundary_zero s ha va"
      by (simp_all add: advect_shapes_def)
    have r: "0 \<le> i" "i < int 9" "0 \<le> j" "j < int 8"
      using ij by (simp_all add: gridSize_def)
    let ?v = "advect_vertical (s ha) (s va) i j"
    let ?s' = "s(va := tab 9 8 (\<lambda>i' j'. if i' = i \<and> j' = j then ?v else cell (s va) i' j'))"
    have w: "i = 0 \<or> i = 8 \<Longrightarrow> ?v = 0"
      using advect_vertical_wall [where vv = "s va" and hv = "s ha" and col = j,
          OF boundary_zero_cells(2) [where s = s and ha = ha and va = va, OF b shs]]
      by auto
    have sv: "save s va i j ?v = Some ?s'"
      by (rule save_shape [where s = s and r = va, OF shs(2) r])
    have "advect_shapes ha hT va vT ?s'"
      by (rule advect_shapes_upd [where s = s and r = va, OF as shs(2) r])
    moreover have "boundary_zero ?s' ha va"
      by (rule boundary_zero_upd_V [where s = s and X = ha and va = va, OF b shs w])
    ultimately show "\<exists>s'. do {
             let pos = (of_int j + 0.5, of_int i);
             velX \<leftarrow> GetVelocityXAtLocalPos pos ha s;
             velY \<leftarrow> GetVelocityYAtLocalPos pos va s;
             let pos = (fst pos - DELTA_TIME * velX, snd pos - DELTA_TIME * velY);
             newVel \<leftarrow> GetVelocityYAtLocalPos pos va s;
             save s vT i j newVel
           } = Some s' \<and> ?P s'"
      using sv True
      by (simp add: GetVelocityXAtLocalPos_eq [where s = s and ha = ha, OF shs(1)]
          GetVelocityYAtLocalPos_eq [where s = s and va = va, OF shs(2)] Let_def
          advect_vertical_def backtrack_def)
  qed (simp add: sh bz)
  then show ?thesis
    using True by auto
next
  case False
  have shs: "shape (s ha) 8 9" "shape (s va) 9 8" "shape (s vT) 9 8" and shh: "shape (s hT) 8 9"
    using sh by (simp_all add: advect_shapes_def)
  have ne: "vT \<noteq> ha" "vT \<noteq> hT"
    using shape_neq_rows [where s = s, OF shs(3,1)] shape_neq_rows [where s = s, OF shs(3) shh] by simp_all
  let ?s1 = "s(vT := tab 9 8 (advect_vertical (s ha) (s va)))"
  have l: "for_each [0..gridSize] (\<lambda>row.
           for_each [0..gridSize - 1] (\<lambda>col s. do {
             let pos = (of_int col + 0.5, of_int row);
             velX \<leftarrow> GetVelocityXAtLocalPos pos ha s;
             velY \<leftarrow> GetVelocityYAtLocalPos pos va s;
             let pos = (fst pos - DELTA_TIME * velX, snd pos - DELTA_TIME * velY);
             newVel \<leftarrow> GetVelocityYAtLocalPos pos va s;
             save s vT row col newVel
           })) s = Some ?s1"
    by (rule advect_loop_V [where s = s, OF shs False])
  have a: "advect_shapes ha hT va vT ?s1"
    using shs shh ne False by (simp add: advect_shapes_def shape_tab)
  have b1: "boundary_zero ?s1 ha va"
    using bz boundary_zero_frame [of ?s1 ha s va] False ne by simp
  have b2: "boundary_zero ?s1 ha vT"
  proof (rule boundary_zero_tab [where H = "cell (s ha)" and V = "advect_vertical (s ha) (s va)"])
    show "?s1 ha = tab 8 9 (cell (s ha))"
      using ne shs(1) by (simp add: tab_cell)
    show "?s1 vT = tab 9 8 (advect_vertical (s ha) (s va))"
      by simp
  next
    fix k :: int
    assume "0 \<le> k" "k \<le> 7"
    then show "cell (s ha) k 0 = 0 \<and> cell (s ha) k 8 = 0"
      by (rule boundary_zero_cells(1) [where s = s and ha = ha and va = va, OF bz shs(1,2)])
  next
    fix k :: int
    assume "0 \<le> k" "k \<le> 7"
    show "advect_vertical (s ha) (s va) 0 k = 0 \<and> advect_vertical (s ha) (s va) 8 k = 0"
      using advect_vertical_wall [where vv = "s va" and hv = "s ha" and col = k,
          OF boundary_zero_cells(2) [where s = s and ha = ha and va = va, OF bz shs(1,2)]]
      by auto
  qed
  show ?thesis
    using l a b1 b2 by blast
qed

lemma walls_loop_H:
  assumes sh: "advect_shapes ha hT va vT s" and bz: "boundary_zero s ha va" and bt: "boundary_zero s ha vT"
  shows "\<exists>s2. for_each [0..gridSize - 1] (\<lambda>row.
           for_each [0..gridSize] (\<lambda>col s. do {
             let pos = (of_int col, of_int row + 0.5);
             velX \<leftarrow> GetVelocityXAtLocalPos pos ha s;
             velY \<leftarrow> GetVelocityYAtLocalPos pos va s;
             let pos = (fst pos - DELTA_TIME * velX, snd pos - DELTA_TIME * velY);
             newVel \<leftarrow> GetVelocityXAtLocalPos pos ha s;
             save s hT row col newVel
           })) s = Some s2 \<and>
         advect_shapes ha hT va vT s2 \<and> boundary_zero s2 ha va \<and> boundary_zero s2 hT vT"
proof (cases "hT = ha")
  case True
  let ?P = "\<lambda>s. advect_shapes ha hT va vT s \<and> boundary_zero s ha va \<and> boundary_zero s ha vT"
  have "\<exists>s2. for_each [0..gridSize - 1] (\<lambda>row.
           for_each [0..gridSize] (\<lambda>col s. do {
             let pos = (of_int col, of_int row + 0.5);
             velX \<leftarrow> GetVelocityXAtLocalPos pos ha s;
             velY \<leftarrow> GetVelocityYAtLocalPos pos va s;
             let pos = (fst pos - DELTA_TIME * velX, snd pos - DELTA_TIME * velY);
             newVel \<leftarrow> GetVelocityXAtLocalPos pos ha s;
             save s hT row col newVel
           })) s = Some s2 \<and> ?P s2"
  proof (rule nest_pres [where P = ?P])
    fix i j :: int and s
    assume ij: "i \<in> set [0..gridSize - 1]" "j \<in> set [0..gridSize]" and P: "?P s"
    then have shs: "shape (s ha) 8 9" "shape (s va) 9 8" and sht: "shape (s vT) 9 8"
      and as: "advect_shapes ha hT va vT s"
      and b: "boundary_zero s ha va" and b': "boundary_zero s ha vT"
      by (simp_all add: advect_shapes_def)
    have r: "0 \<le> i" "i < int 8" "0 \<le> j" "j < int 9"
      using ij by (simp_all add: gridSize_def)
    let ?v = "advect_horizontal (s ha) (s va) i j"
    let ?s' = "s(ha := tab 8 9 (\<lambda>i' j'. if i' = i \<and> j' = j then ?v else cell (s ha) i' j'))"
    have w: "j = 0 \<or> j = 8 \<Longrightarrow> ?v = 0"
      using advect_horizontal_wall [where hv = "s ha" and vv = "s va" and row = i,
          OF boundary_zero_cells(1) [where s = s and ha = ha and va = va, OF b shs]]
      by auto
    have sv: "save s ha i j ?v = Some ?s'"
      by (rule save_shape [where s = s and r = ha, OF shs(1) r])
    have "advect_shapes ha hT va vT ?s'"
      by (rule advect_shapes_upd [where s = s and r = ha, OF as shs(1) r])
    moreover have "boundary_zero ?s' ha va"
      by (rule boundary_zero_upd_H [where s = s and X = va and ha = ha, OF b shs w])
    moreover have "boundary_zero ?s' ha vT"
      by (rule boundary_zero_upd_H [where s = s and X = vT and ha = ha, OF b' shs(1) sht w])
    ultimately show "\<exists>s'. do {
             let pos = (of_int j, of_int i + 0.5);
             velX \<leftarrow> GetVelocityXAtLocalPos pos ha s;
             velY \<leftarrow> GetVelocityYAtLocalPos pos va s;
             let pos = (fst pos - DELTA_TIME * velX, snd pos - DELTA_TIME * velY);
             newVel \<leftarrow> GetVelocityXAtLocalPos pos ha s;
             save s hT i j newVel
           } = Some s' \<and> ?P s'"
      using sv True
      by (simp add: GetVelocityXAtLocalPos_eq [where s = s and ha = ha, OF shs(1)]
          GetVelocityYAtLocalPos_eq [where s = s and va = va, OF shs(2)] Let_def
          advect_horizontal_def backtrack_def)
  qed (simp add: sh bz bt)
  then show ?thesis
    using True by auto
next
  case False
  have shs: "shape (s ha) 8 9" "shape (s va) 9 8" "shape (s hT) 8 9" and sht: "shape (s vT) 9 8"
    using sh by (simp_all add: advect_shapes_def)
  have ne: "hT \<noteq> va" "hT \<noteq> vT"
    using shape_neq_rows [where s = s, OF shs(3,2)] shape_neq_rows [where s = s, OF shs(3) sht] by simp_all
  let ?s2 = "s(hT := tab 8 9 (advect_horizontal (s ha) (s va)))"
  have l: "for_each [0..gridSize - 1] (\<lambda>row.
           for_each [0..gridSize] (\<lambda>col s. do {
             let pos = (of_int col, of_int row + 0.5);
             velX \<leftarrow> GetVelocityXAtLocalPos pos ha s;
             velY \<leftarrow> GetVelocityYAtLocalPos pos va s;
             let pos = (fst pos - DELTA_TIME * velX, snd pos - DELTA_TIME * velY);
             newVel \<leftarrow> GetVelocityXAtLocalPos pos ha s;
             save s hT row col newVel
           })) s = Some ?s2"
    by (rule advect_loop_H [where s = s, OF shs False])
  have a: "advect_shapes ha hT va vT ?s2"
    using shs sht ne False by (simp add: advect_shapes_def shape_tab)
  have b1: "boundary_zero ?s2 ha va"
    using bz boundary_zero_frame [of ?s2 ha s va] False ne by simp
  have b2: "boundary_zero ?s2 hT vT"
  proof (rule boundary_zero_tab [where V = "cell (s vT)" and H = "advect_horizontal (s ha) (s va)"])
    show "?s2 vT = tab 9 8 (cell (s vT))"
      using ne sht by (simp add: tab_cell)
    show "?s2 hT = tab 8 9 (advect_horizontal (s ha) (s va))"
      by simp
  next
    fix k :: int
    assume "0 \<le> k" "k \<le> 7"
    then show "cell (s vT) 0 k = 0 \<and> cell (s vT) 8 k = 0"
      by (rule boundary_zero_cells(2) [where s = s and ha = ha and va = vT, OF bt shs(1) sht])
  next
    fix k :: int
    assume "0 \<le> k" "k \<le> 7"
    show "advect_horizontal (s ha) (s va) k 0 = 0 \<and> advect_horizontal (s ha) (s va) k 8 = 0"
      using advect_horizontal_wall [where hv = "s ha" and vv = "s va" and row = k,
          OF boundary_zero_cells(1) [where s = s and ha = ha and va = va, OF bz shs(1,2)]]
      by auto
  qed
  show ?thesis
    using l a b1 b2 by blast
qed

lemma walls_copy_V:
  assumes sh: "advect_shapes ha hT va vT s" and bz: "boundary_zero s ha va" and bt: "boundary_zero s hT vT"
  shows "\<exists>s3. for_each [0..gridSize] (\<lambda>row.
           for_each [0..gridSize - 1] (\<lambda>col s. do {
             v \<leftarrow> load s vT row col;
             save s va row col v
           })) s = Some s3 \<and>
         advect_shapes ha hT va vT s3 \<and> boundary_zero s3 ha va \<and> boundary_zero s3 hT vT"
proof (rule nest_pres [where P = "\<lambda>s. advect_shapes ha hT va vT s \<and> boundary_zero s ha va \<and> boundary_zero s hT vT"])
  fix i j :: int and s
  assume ij: "i \<in> set [0..gridSize]" "j \<in> set [0..gridSize - 1]"
    and P: "advect_shapes ha hT va vT s \<and> boundary_zero s ha va \<and> boundary_zero s hT vT"
  then have shs: "shape (s ha) 8 9" "shape (s va) 9 8" "shape (s hT) 8 9" "shape (s vT) 9 8"
    and as: "advect_shapes ha hT va vT s"
    and b: "boundary_zero s ha va" and b': "boundary_zero s hT vT"
    by (simp_all add: advect_shapes_def)
  have r: "0 \<le> i" "i < int 9" "0 \<le> j" "j < int 8"
    using ij by (simp_all add: gridSize_def)
  have ne: "hT \<noteq> va"
    using shape_neq_rows [where s = s, OF shs(3,2)] by simp
  let ?v = "cell (s vT) i j"
  let ?s' = "s(va := tab 9 8 (\<lambda>i' j'. if i' = i \<and> j' = j then ?v else cell (s va) i' j'))"
  have w: "i = 0 \<or> i = 8 \<Longrightarrow> ?v = 0"
    using boundary_zero_cells(2) [where s = s and ha = hT and va = vT and j = j, OF b' shs(3,4)] r
    by auto
  have ld: "load s vT i j = Some ?v"
    using r by (simp add: load_shape [where s = s and r = vT, OF shs(4)])
  have sv: "save s va i j ?v = Some ?s'"
    by (rule save_shape [where s = s and r = va, OF shs(2) r])
  have "advect_shapes ha hT va vT ?s'"
    by (rule advect_shapes_upd [where s = s and r = va, OF as shs(2) r])
  moreover have "boundary_zero ?s' ha va"
    by (rule boundary_zero_upd_V [where s = s and X = ha and va = va, OF b shs(1,2) w])
  moreover have "boundary_zero ?s' hT vT"
  proof (cases "vT = va")
    case True
    show ?thesis
      using boundary_zero_upd_V [where s = s and X = hT and va = va and i = i and j = j and v = ?v] b' shs w
      unfolding True by simp
  next
    case False
    then show ?thesis
      using b' boundary_zero_frame [of ?s' hT s vT] ne by simp
  qed
  ultimately show "\<exists>s'. do {
           v \<leftarrow> load s vT i j;
           save s va i j v
         } = Some s' \<and> advect_shapes ha hT va vT s' \<and> boundary_zero s' ha va \<and> boundary_zero s' hT vT"
    by (simp add: ld sv)
qed (simp add: sh bz bt)

lemma walls_copy_H:
  assumes sh: "advect_shapes ha hT va vT s" and bz: "boundary_zero s ha va" and bt: "boundary_zero s hT vT"
  shows "\<exists>s4. for_each [0..gridSize - 1] (\<lambda>row.
           for_each [0..gridSize] (\<lambda>col s. do {
             v \<leftarrow> load s hT row col;
             save s ha row col v
           })) s = Some s4 \<and>
         advect_shapes ha hT va vT s4 \<and> boundary_zero s4 ha va \<and> boundary_zero s4 hT vT"
proof (rule nest_pres [where P = "\<lambda>s. advect_shapes ha hT va vT s \<and> boundary_zero s ha va \<and> boundary_zero s hT vT"])
  fix i j :: int and s
  assume ij: "i \<in> set [0..gridSize - 1]" "j \<in> set [0..gridSize]"
    and P: "advect_shapes ha hT va vT s \<and> boundary_zero s ha va \<and> boundary_zero s hT vT"
  then have shs: "shape (s ha) 8 9" "shape (s va) 9 8" "shape (s hT) 8 9" "shape (s vT) 9 8"
    and as: "advect_shapes ha hT va vT s"
    and b: "boundary_zero s ha va" and b': "boundary_zero s hT vT"
    by (simp_all add: advect_shapes_def)
  have r: "0 \<le> i" "i < int 8" "0 \<le> j" "j < int 9"
    using ij by (simp_all add: gridSize_def)
  have ne: "ha \<noteq> vT"
    using shape_neq_rows [where s = s, OF shs(1,4)] by simp
  let ?v = "cell (s hT) i j"
  let ?s' = "s(ha := tab 8 9 (\<lambda>i' j'. if i' = i \<and> j' = j then ?v else cell (s ha) i' j'))"
  have w: "j = 0 \<or> j = 8 \<Longrightarrow> ?v = 0"
    using boundary_zero_cells(1) [where s = s and ha = hT and va = vT and i = i, OF b' shs(3,4)] r
    by auto
  have ld: "load s hT i j = Some ?v"
    using r by (simp add: load_shape [where s = s and r = hT, OF shs(3)])
  have sv: "save s ha i j ?v = Some ?s'"
    by (rule save_shape [where s = s and r = ha, OF shs(1) r])
  have "advect_shapes ha hT va vT ?s'"
    by (rule advect_shapes_upd [where s = s and r = ha, OF as shs(1) r])
  moreover have "boundary_zero ?s' ha va"
    by (rule boundary_zero_upd_H [where s = s and X = va and ha = ha, OF b shs(1,2) w])
  moreover have "boundary_zero ?s' hT vT"
  proof (cases "hT = ha")
    case True
    show ?thesis
      using boundary_zero_upd_H [where s = s and X = vT and ha = ha and i = i and j = j and v = ?v] b' shs w
      unfolding True by simp
  next
    case False
    then show ?thesis
      using b' boundary_zero_frame [of ?s' hT s vT] ne by simp
  qed
  ultimately show "\<exists>s'. do {
           v \<leftarrow> load s hT i j;
           save s ha i j v
         } = Some s' \<and> advect_shapes ha hT va vT s' \<and> boundary_zero s' ha va \<and> boundary_zero s' hT vT"
    by (simp add: ld sv)
qed (simp add: sh bz bt)

lemma AdvectVelocities_walls:
  assumes sh: "advect_shapes ha hT va vT s" and bz: "boundary_zero s ha va"
  shows "\<exists>s'. AdvectVelocities ha hT va vT s = Some s' \<and> boundary_zero s' ha va"
proof -
  from walls_loop_V [OF sh bz] obtain s1 where l1: "for_each [0..gridSize] (\<lambda>row.
           for_each [0..gridSize - 1] (\<lambda>col s. do {
             let pos = (of_int col + 0.5, of_int row);
             velX \<leftarrow> GetVelocityXAtLocalPos pos ha s;
             velY \<leftarrow> GetVelocityYAtLocalPos pos va s;
             let pos = (fst pos - DELTA_TIME * velX, snd pos - DELTA_TIME * velY);
             newVel \<leftarrow> GetVelocityYAtLocalPos pos va s;
             save s vT row col newVel
           })) s = Some s1"
    and p1: "advect_shapes ha hT va vT s1" "boundary_zero s1 ha va" "boundary_zero s1 ha vT"
    by blast
  from walls_loop_H [OF p1] obtain s2 where l2: "for_each [0..gridSize - 1] (\<lambda>row.
           for_each [0..gridSize] (\<lambda>col s. do {
             let pos = (of_int col, of_int row + 0.5);
             velX \<leftarrow> GetVelocityXAtLocalPos pos ha s;
             velY \<leftarrow> GetVelocityYAtLocalPos pos va s;
             let pos = (fst pos - DELTA_TIME * velX, snd pos - DELTA_TIME * velY);
             newVel \<leftarrow> GetVelocityXAtLocalPos pos ha s;
             save s hT row col newVel
           })) s1 = Some s2"
    and p2: "advect_shapes ha hT va vT s2" "boundary_zero s2 ha va" "boundary_zero s2 hT vT"
    by blast
  from walls_copy_V [OF p2] obtain s3 where l3: "for_each [0..gridSize] (\<lambda>row.
           for_each [0..gridSize - 1] (\<lambda>col s. do {
             v \<leftarrow> load s vT row col;
             save s va row col v
           })) s2 = Some s3"
    and p3: "advect_shapes ha hT va vT s3" "boundary_zero s3 ha va" "boundary_zero s3 hT vT"
    by blast
  from walls_copy_H [OF p3] obtain s4 where l4: "for_each [0..gridSize - 1] (\<lambda>row.
           for_each [0..gridSize] (\<lambda>col s. do {
             v \<leftarrow> load s hT row col;
             save s ha row col v
           })) s3 = Some s4"
    and p4: "boundary_zero s4 ha va"
    by blast
  show ?thesis
    unfolding AdvectVelocities_def using p4 by (simp only: l1 l2 l3 l4 Option.bind.simps) blast
qed

section \<open>The pressure sweep on numbers that overflow\<close>

lemma CalculatePressure_double_tab:
  assumes "t \<noteq> ha" "t \<noteq> va" "shape (s ha) 8 9" "shape (s va) 9 8"
    and "0 \<le> row" "row < 8" "0 \<le> col" "col < 8"
  shows "CalculatePressure_double t ha va row col (s(t := tab 8 8 f)) =
     Some (s(t := tab 8 8 (\<lambda>i' j'. if i' = row \<and> j' = col then stored_pressure_double f (cell (s ha)) (cell (s va)) row col else f i' j')))"
  using assms
  by (simp add: CalculatePressure_double_def Let_def load_tab save_tab load_shape stored_pressure_double_def cong: if_cong)

lemma stored_pressure_double_settled:
  assumes "settled (\<lambda>i j. (i + j) AND 1 = k) F orig f" "(i + j) AND 1 = k"
  shows "stored_pressure_double f h v i j = stored_pressure_double orig h v i j"
proof -
  have eqs: "f i (j - 1) = orig i (j - 1)" "f i (j + 1) = orig i (j + 1)"
       "f (i - 1) j = orig (i - 1) j" "f (i + 1) j = orig (i + 1) j"
    using assms(1) colour_flip [OF assms(2)] unfolding settled_def by blast+
  show ?thesis unfolding stored_pressure_double_def eqs by (rule refl)
qed

lemma half_sweep_double:
  assumes sh: "shape (s cv) 8 8" "shape (s ha) 8 9" "shape (s va) 9 8"
  shows "for_each [0..gridSize - 1] (\<lambda>row.
           for_each [0..gridSize - 1] (\<lambda>col s.
             if (row + col) AND 1 = k
             then CalculatePressure_double cv ha va row col s
             else Some s)) s =
         Some (s(cv := tab 8 8 (\<lambda>i j. if (i + j) AND 1 = k
                  then stored_pressure_double (cell (s cv)) (cell (s ha)) (cell (s va)) i j else cell (s cv) i j)))"
proof -
  have ne: "cv \<noteq> ha" "cv \<noteq> va"
    using sh by (auto dest: shape_neq_rows shape_neq_cols)
  let ?g = "\<lambda>i j::int. (i + j) AND 1 = k"
  let ?F = "stored_pressure_double (cell (s cv)) (cell (s ha)) (cell (s va))"
  have "for_each [0..7] (\<lambda>row.
           for_each [0..7] (\<lambda>col s.
             if (row + col) AND 1 = k
             then CalculatePressure_double cv ha va row col s
             else Some s)) s =
     Some (s(cv := tab 8 8 (\<lambda>i j. if i \<in> set [0..7] \<and> j \<in> set [0..7] \<and> ?g i j then ?F i j else cell (s cv) i j)))"
  proof (rule nest_loop_shape [where st = s and t = cv and g = ?g and F = ?F])
    show "shape (s cv) 8 8" by (rule sh)
  next
    fix f i j
    assume ij: "i \<in> set [0..7]" "j \<in> set [0..7]"
      and st: "settled ?g ?F (cell (s cv)) f"
    show "(if (i + j) AND 1 = k then CalculatePressure_double cv ha va i j (s(cv := tab 8 8 f))
           else Some (s(cv := tab 8 8 f))) =
          Some (s(cv := tab 8 8 (\<lambda>i' j'. if i' = i \<and> j' = j \<and> (i + j) AND 1 = k then ?F i j else f i' j')))"
    proof (cases "(i + j) AND 1 = k")
      case True
      have "CalculatePressure_double cv ha va i j (s(cv := tab 8 8 f)) =
            Some (s(cv := tab 8 8 (\<lambda>i' j'. if i' = i \<and> j' = j then stored_pressure_double f (cell (s ha)) (cell (s va)) i j else f i' j')))"
        using ij ne sh by (intro CalculatePressure_double_tab) auto
      then show ?thesis
        using True unfolding stored_pressure_double_settled [OF st True] by simp
    next
      case False
      then show ?thesis by simp
    qed
  qed simp_all
  moreover have "tab 8 8 (\<lambda>i j. if i \<in> set [0..7] \<and> j \<in> set [0..7] \<and> ?g i j then ?F i j else cell (s cv) i j) =
        tab 8 8 (\<lambda>i j. if ?g i j then ?F i j else cell (s cv) i j)"
    by (rule tab_cong) auto
  ultimately show ?thesis by (simp add: gridSize_def)
qed

lemma stored_pressure_double_cong:
  assumes "\<And>i' j'. 0 \<le> i' \<Longrightarrow> i' < 8 \<Longrightarrow> 0 \<le> j' \<Longrightarrow> j' < 8 \<Longrightarrow> p i' j' = q i' j'"
    and "0 \<le> i" "i < 8" "0 \<le> j" "j < 8"
  shows "stored_pressure_double p h v i j = stored_pressure_double q h v i j"
proof -
  have "j \<noteq> 0 \<and> j \<noteq> 7 \<Longrightarrow> p i (j - 1) = q i (j - 1) \<and> p i (j + 1) = q i (j + 1)"
    using assms by auto
  moreover have "i \<noteq> 0 \<and> i \<noteq> 7 \<Longrightarrow> p (i - 1) j = q (i - 1) j \<and> p (i + 1) j = q (i + 1) j"
    using assms by auto
  ultimately show ?thesis
    by (auto simp: stored_pressure_double_def)
qed

lemma SolvePressureRedBlack_double_eq:
  assumes sh: "shape (s cv) 8 8" "shape (s ha) 8 9" "shape (s va) 9 8"
  shows "SolvePressureRedBlack_double cv ha va s =
     Some (s(cv := tab 8 8 (relax_class_double 1 (relax_class_double 0 (cell (s cv)) (cell (s ha)) (cell (s va)))
                              (cell (s ha)) (cell (s va)))))"
proof -
  have ne: "cv \<noteq> ha" "cv \<noteq> va"
    using sh by (auto dest: shape_neq_rows shape_neq_cols)
  let ?h = "cell (s ha)" and ?v = "cell (s va)"
  let ?p1 = "relax_class_double 0 (cell (s cv)) ?h ?v"
  let ?s1 = "s(cv := tab 8 8 ?p1)"
  have sh1: "shape (?s1 cv) 8 8" "shape (?s1 ha) 8 9" "shape (?s1 va) 9 8"
    using sh ne by (simp_all add: shape_tab)
  have r: "(\<lambda>i j. if (i + j) AND 1 = 0 then stored_pressure_double (cell (s cv)) ?h ?v i j else cell (s cv) i j) = ?p1"
    by (intro ext) (simp add: relax_class_double_def)
  have red: "for_each [0..gridSize - 1] (\<lambda>row.
           for_each [0..gridSize - 1] (\<lambda>col s.
             if (row + col) AND 1 = 0
             then CalculatePressure_double cv ha va row col s
             else Some s)) s = Some ?s1"
    using half_sweep_double [OF sh, of 0] unfolding r .
  have eq: "tab 8 8 (\<lambda>i j. if (i + j) AND 1 = 1
              then stored_pressure_double (cell (?s1 cv)) (cell (?s1 ha)) (cell (?s1 va)) i j else cell (?s1 cv) i j) =
        tab 8 8 (relax_class_double 1 ?p1 ?h ?v)"
  proof (rule tab_cong)
    fix i j :: int
    assume ij: "0 \<le> i" "i < int 8" "0 \<le> j" "j < int 8"
    have "stored_pressure_double (cell (tab 8 8 ?p1)) ?h ?v i j = stored_pressure_double ?p1 ?h ?v i j"
      using ij by (intro stored_pressure_double_cong) (simp_all add: cell_tab)
    then show "(if (i + j) AND 1 = 1
           then stored_pressure_double (cell (?s1 cv)) (cell (?s1 ha)) (cell (?s1 va)) i j else cell (?s1 cv) i j) =
          relax_class_double 1 ?p1 ?h ?v i j"
      using ij ne by (simp add: relax_class_double_def cell_tab)
  qed
  have black: "for_each [0..gridSize - 1] (\<lambda>row.
           for_each [0..gridSize - 1] (\<lambda>col s.
             if (row + col) AND 1 = 1
             then CalculatePressure_double cv ha va row col s
             else Some s)) ?s1 = Some (s(cv := tab 8 8 (relax_class_double 1 ?p1 ?h ?v)))"
    using half_sweep_double [where s = ?s1 and cv = cv and ha = ha and va = va and k = 1, OF sh1]
    unfolding eq by simp
  show ?thesis
    unfolding SolvePressureRedBlack_double_def by (simp add: red black)
qed

lemma huge_face_store_shape:
  "shape (huge_face_store 0) 8 8" "shape (huge_face_store 1) 8 9" "shape (huge_face_store 2) 9 8"
  by (simp_all add: huge_face_store_def shape_tab)

lemma huge_face_sweep:
  "SolvePressureRedBlack_double 0 1 2 huge_face_store =
     Some (huge_face_store(0 := tab 8 8 (relax_class_double 1
        (relax_class_double 0 (cell (huge_face_store 0)) (cell (huge_face_store 1)) (cell (huge_face_store 2)))
        (cell (huge_face_store 1)) (cell (huge_face_store 2)))))"
  by (rule SolvePressureRedBlack_double_eq [where s = huge_face_store and cv = 0 and ha = 1 and va = 2,
        OF huge_face_store_shape])

lemma huge_face_cells:
  "relax_class_double 1
        (relax_class_double 0 (cell (huge_face_store 0)) (cell (huge_face_store 1)) (cell (huge_face_store 2)))
        (cell (huge_face_store 1)) (cell (huge_face_store 2)) 4 4 = PosInf"
  "relax_class_double 1
        (relax_class_double 0 (cell (huge_face_store 0)) (cell (huge_face_store 1)) (cell (huge_face_store 2)))
        (cell (huge_face_store 1)) (cell (huge_face_store 2)) 4 3 = NaN"
  by (simp_all add: relax_class_double_def stored_pressure_double_def huge_face_store_def cell_tab
      d_sub_def to_double_def MAX_VALUE_def DENSITY_def DELTA_X_def DELTA_TIME_def)

section \<open>Loops that fault\<close>

lemma for_each_fault_or_pres:
  assumes "\<And>i s. i \<in> set xs \<Longrightarrow> P s \<Longrightarrow> body i s = None \<or> (\<exists>s'. body i s = Some s' \<and> P s')"
  shows "P s \<Longrightarrow> for_each xs body s = None \<or> (\<exists>s'. for_each xs body s = Some s' \<and> P s')"
  using assms
proof (induction xs arbitrary: s)
  case Nil
  then show ?case by simp
next
  case (Cons x xs)
  have "body x s = None \<or> (\<exists>s'. body x s = Some s' \<and> P s')"
    using Cons.prems by simp
  then show ?case
  proof
    assume "body x s = None"
    then show ?thesis by simp
  next
    assume "\<exists>s'. body x s = Some s' \<and> P s'"
    then obtain s1 where s1: "body x s = Some s1" "P s1" by blast
    have "for_each xs body s1 = None \<or> (\<exists>s'. for_each xs body s1 = Some s' \<and> P s')"
      using s1(2) Cons.prems(2) by (intro Cons.IH) auto
    then show ?thesis using s1(1) by simp
  qed
qed

lemma for_each_fault:
  assumes step: "\<And>i s. i \<in> set xs \<Longrightarrow> P s \<Longrightarrow> body i s = None \<or> (\<exists>s'. body i s = Some s' \<and> P s')"
    and fault: "\<And>s. P s \<Longrightarrow> body k s = None"
  shows "k \<in> set xs \<Longrightarrow> P s \<Longrightarrow> for_each xs body s = None"
  using step
proof (induction xs arbitrary: s)
  case Nil
  then show ?case by simp
next
  case (Cons x xs)
  show ?case
  proof (cases "body x s")
    case None
    then show ?thesis by simp
  next
    case (Some s1)
    have "x \<noteq> k"
      using fault [OF Cons.prems(2)] Some by auto
    then have k: "k \<in> set xs"
      using Cons.prems(1) by simp
    have "P s1"
      using Cons.prems(3) [of x s] Cons.prems(2) Some by simp
    then have "for_each xs body s1 = None"
      using k Cons.prems(3) by (intro Cons.IH) auto
    then show ?thesis using Some by simp
  qed
qed

lemma nest_fault:
  assumes step: "\<And>i j s. i \<in> set rows \<Longrightarrow> j \<in> set cols \<Longrightarrow> P s \<Longrightarrow>
      body i j s = None \<or> (\<exists>s'. body i j s = Some s' \<and> P s')"
    and fault: "\<And>s. P s \<Longrightarrow> body r c s = None"
    and rc: "r \<in> set rows" "c \<in> set cols" and P: "P s"
  shows "for_each rows (\<lambda>row. for_each cols (body row)) s = None"
proof (rule for_each_fault [where P = P and k = r, OF _ _ rc(1) P])
  fix i s
  assume "i \<in> set rows" "P s"
  then show "for_each cols (body i) s = None \<or> (\<exists>s'. for_each cols (body i) s = Some s' \<and> P s')"
    using step by (intro for_each_fault_or_pres [where P = P]) auto
next
  fix s
  assume "P s"
  then show "for_each cols (body r) s = None"
    using step rc(1)
    by (intro for_each_fault [where P = P and k = c and xs = cols and body = "body r", OF _ fault rc(2)]) auto
qed

lemma save_frame: "save s r i j v = Some s' \<Longrightarrow> q \<noteq> r \<Longrightarrow> s' q = s q"
  by (auto simp: save_def split: option.splits)

lemma item_tab:
  "item (tab m n f) (Finite a) =
     (if a = of_int \<lfloor>a\<rfloor> \<and> 0 \<le> a \<and> \<lfloor>a\<rfloor> < int m then Some (map (\<lambda>j. f \<lfloor>a\<rfloor> (int j)) [0..<n]) else None)"
proof (cases "a = of_int \<lfloor>a\<rfloor> \<and> 0 \<le> a \<and> \<lfloor>a\<rfloor> < int m")
  case True
  then have "0 \<le> \<lfloor>a\<rfloor>" by simp
  with True have "nat \<lfloor>a\<rfloor> < m" by linarith
  with True show ?thesis by (simp add: item_def tab_def)
next
  case False
  then show ?thesis by (auto simp: item_def tab_def)
qed

lemma item_row:
  "item (map (\<lambda>j. g (int j)) [0..<n]) (Finite b) =
     (if b = of_int \<lfloor>b\<rfloor> \<and> 0 \<le> b \<and> \<lfloor>b\<rfloor> < int n then Some (g \<lfloor>b\<rfloor>) else None)"
proof (cases "b = of_int \<lfloor>b\<rfloor> \<and> 0 \<le> b \<and> \<lfloor>b\<rfloor> < int n")
  case True
  then have "0 \<le> \<lfloor>b\<rfloor>" by simp
  with True have "nat \<lfloor>b\<rfloor> < n" by linarith
  with True show ?thesis by (simp add: item_def)
next
  case False
  then show ?thesis by (auto simp: item_def)
qed

lemma load_at_tab:
  assumes "s r = tab m n f"
  shows "load_at s r (Finite a) (Finite b) =
     (if a = of_int \<lfloor>a\<rfloor> \<and> 0 \<le> a \<and> \<lfloor>a\<rfloor> < int m
      then Some (if b = of_int \<lfloor>b\<rfloor> \<and> 0 \<le> b \<and> \<lfloor>b\<rfloor> < int n then f \<lfloor>a\<rfloor> \<lfloor>b\<rfloor> else NaN)
      else None)"
  unfolding load_at_def assms item_tab
  by (simp add: item_row)

lemma load_at_NaN: "load_at s r NaN j = None"
  by (simp add: load_at_def item_def)

section \<open>The advection step on numbers that overflow\<close>

lemma huge_shear_sample:
  assumes "s 1 = huge_shear_store 1" "s 2 = huge_shear_store 2"
  shows "GetVelocityXAtLocalPos_double (Finite 4.5, Finite 4) 1 s = Some (Finite 0)"
    and "GetVelocityYAtLocalPos_double (Finite 4.5, Finite 4) 2 s = Some NaN"
    and "GetVelocityYAtLocalPos_double (Finite 4.5, NaN) 2 s = None"
proof -
  have h: "s 1 = tab 8 9 (\<lambda>i j. Finite 0)"
    using assms(1) by (simp add: huge_shear_store_def)
  have v: "s 2 = tab 9 8 (\<lambda>i j. if i = 4 \<and> j = 4 then Finite (10 ^ 308)
                            else if i = 5 \<and> j = 4 then Finite (- (10 ^ 308)) else Finite 0)"
    using assms(2) by (simp add: huge_shear_store_def)
  have lh: "load_at s (Suc 0) (Finite a) (Finite b) =
     (if a = of_int \<lfloor>a\<rfloor> \<and> 0 \<le> a \<and> \<lfloor>a\<rfloor> < 8
      then Some (if b = of_int \<lfloor>b\<rfloor> \<and> 0 \<le> b \<and> \<lfloor>b\<rfloor> < 9 then Finite 0 else NaN)
      else None)" for a b
    using load_at_tab [where s = s and r = 1 and a = a and b = b, OF h] by simp
  show "GetVelocityXAtLocalPos_double (Finite 4.5, Finite 4) 1 s = Some (Finite 0)"
    by (simp add: GetVelocityXAtLocalPos_double_def Let_def lh lerp_double_def d_sub_def
        to_double_def MAX_VALUE_def)
  show "GetVelocityYAtLocalPos_double (Finite 4.5, Finite 4) 2 s = Some NaN"
    by (simp add: GetVelocityYAtLocalPos_double_def Let_def load_at_tab [where s = s and r = 2, OF v] lerp_double_def d_sub_def
        to_double_def MAX_VALUE_def)
  show "GetVelocityYAtLocalPos_double (Finite 4.5, NaN) 2 s = None"
    by (simp add: GetVelocityYAtLocalPos_double_def Let_def load_at_NaN d_sub_def to_double_def MAX_VALUE_def)
qed

lemma huge_shear_loop:
  "for_each [0..gridSize] (\<lambda>row.
     for_each [0..gridSize - 1] (\<lambda>col s. do {
       let pos = (d_add (Finite (of_int col)) (Finite 0.5), Finite (of_int row));
       velX \<leftarrow> GetVelocityXAtLocalPos_double pos 1 s;
       velY \<leftarrow> GetVelocityYAtLocalPos_double pos 2 s;
       let pos = (d_sub (fst pos) (d_mul (Finite DELTA_TIME) velX),
                  d_sub (snd pos) (d_mul (Finite DELTA_TIME) velY));
       newVel \<leftarrow> GetVelocityYAtLocalPos_double pos 2 s;
       save s 4 row col newVel
     })) huge_shear_store = None"
proof (rule nest_fault [where P = "\<lambda>s. s 1 = huge_shear_store 1 \<and> s 2 = huge_shear_store 2" and r = 4 and c = 4])
  fix i j :: int and s :: dstore
  assume P: "s 1 = huge_shear_store 1 \<and> s 2 = huge_shear_store 2"
  have fr: "s' 1 = huge_shear_store 1 \<and> s' 2 = huge_shear_store 2" if "save s 4 i j v = Some s'" for v s'
    using save_frame [OF that, of 1] save_frame [OF that, of 2] P by simp
  show "do {
       let pos = (d_add (Finite (of_int j)) (Finite 0.5), Finite (of_int i));
       velX \<leftarrow> GetVelocityXAtLocalPos_double pos 1 s;
       velY \<leftarrow> GetVelocityYAtLocalPos_double pos 2 s;
       let pos = (d_sub (fst pos) (d_mul (Finite DELTA_TIME) velX),
                  d_sub (snd pos) (d_mul (Finite DELTA_TIME) velY));
       newVel \<leftarrow> GetVelocityYAtLocalPos_double pos 2 s;
       save s 4 i j newVel
     } = None \<or> (\<exists>s'. do {
       let pos = (d_add (Finite (of_int j)) (Finite 0.5), Finite (of_int i));
       velX \<leftarrow> GetVelocityXAtLocalPos_double pos 1 s;
       velY \<leftarrow> GetVelocityYAtLocalPos_double pos 2 s;
       let pos = (d_sub (fst pos) (d_mul (Finite DELTA_TIME) velX),
                  d_sub (snd pos) (d_mul (Finite DELTA_TIME) velY));
       newVel \<leftarrow> GetVelocityYAtLocalPos_double pos 2 s;
       save s 4 i j newVel
     } = Some s' \<and> s' 1 = huge_shear_store 1 \<and> s' 2 = huge_shear_store 2)"
    (is "?B = None \<or> _")
  proof (cases ?B)
    case None
    then show ?thesis by simp
  next
    case (Some s')
    then obtain v where "save s 4 i j v = Some s'"
      by (auto simp: Let_def bind_eq_Some_conv)
    from fr [OF this] Some show ?thesis by simp
  qed
next
  fix s :: dstore
  assume P: "s 1 = huge_shear_store 1 \<and> s 2 = huge_shear_store 2"
  have pos: "d_add (Finite (of_int (4::int))) (Finite 0.5) = Finite 4.5"
    by (simp add: to_double_def MAX_VALUE_def)
  show "do {
       let pos = (d_add (Finite (of_int 4)) (Finite 0.5), Finite (of_int 4));
       velX \<leftarrow> GetVelocityXAtLocalPos_double pos 1 s;
       velY \<leftarrow> GetVelocityYAtLocalPos_double pos 2 s;
       let pos = (d_sub (fst pos) (d_mul (Finite DELTA_TIME) velX),
                  d_sub (snd pos) (d_mul (Finite DELTA_TIME) velY));
       newVel \<leftarrow> GetVelocityYAtLocalPos_double pos 2 s;
       save s 4 4 4 newVel
     } = None"
    using huge_shear_sample [of s] P unfolding pos Let_def
    by (simp add: d_sub_def to_double_def MAX_VALUE_def DELTA_TIME_def)
qed (simp_all add: gridSize_def)

lemma huge_shear_fault: "AdvectVelocities_double 1 3 2 4 huge_shear_store = None"
  unfolding AdvectVelocities_double_def
  by (simp only: huge_shear_loop Option.bind.simps)

section \<open>The claims\<close>

text \<open>
  C1. For every cell of the grid, one call of \<^verbatim>\<open>CalculatePressure\<close> is to store
  \<open>(pLeft + pRight + pUp + pDown - density * dx * divergence / dt) / 4\<close>, where a pressure
  neighbour is zero exactly when it lies outside the grid. The code stores \<open>stored_pressure\<close>
  instead (lemma \<open>CalculatePressure_value\<close>), which drops the neighbours inside the grid
  too when the cell is on an edge (lemma \<open>stored_pressure_edge\<close>; the two agree on the
  inner cells, lemma \<open>stored_pressure_interior\<close>). On the store \<open>edge_store\<close>, whose only
  non-zero entry is the pressure 4 in the cell \<open>[0][1]\<close>, the call for the cell \<open>[0][0]\<close>
  stores 0, where the formula of the specification gives 1.
\<close>

theorem C1_CalculatePressure_edge_cell:
  "CalculatePressure 0 1 2 0 0 edge_store \<bind> (\<lambda>s'. load s' 0 0 0) = Some 0 \<and>
   claimed_newPressure (cell (edge_store 0)) (cell (edge_store 1)) (cell (edge_store 2)) 0 0 = 1"
proof
  have "CalculatePressure 0 1 2 0 0 edge_store \<bind> (\<lambda>s'. load s' 0 0 0) =
        Some (stored_pressure (cell (edge_store 0)) (cell (edge_store 1)) (cell (edge_store 2)) 0 0)"
    by (rule CalculatePressure_value [OF edge_store_shape]) simp_all
  also have "stored_pressure (cell (edge_store 0)) (cell (edge_store 1)) (cell (edge_store 2)) 0 0 = 0"
    by (simp add: stored_pressure_def edge_store_def cell_tab)
  finally show "CalculatePressure 0 1 2 0 0 edge_store \<bind> (\<lambda>s'. load s' 0 0 0) = Some 0" .
  show "claimed_newPressure (cell (edge_store 0)) (cell (edge_store 1)) (cell (edge_store 2)) 0 0 = 1"
    by (simp add: claimed_newPressure_def edge_store_def cell_tab)
qed

text \<open>
  C2 (amended). Immediately after \<^verbatim>\<open>CalculateVelocities\<close>, from any state of the three
  arrays, every boundary face velocity is zero: \<open>hVel[row][0]\<close>, \<open>hVel[row][8]\<close>,
  \<open>vVel[0][col]\<close> and \<open>vVel[8][col]\<close> for all rows and columns \<open>0..7\<close>. The advection
  step keeps the boundary: when every boundary face velocity is zero before
  \<^verbatim>\<open>AdvectVelocities\<close> and no velocity exceeds \<open>10^300\<close> in magnitude (so that no
  interpolation overflows), every boundary face velocity is zero after, whether or not the
  temporary arrays are the live ones.
\<close>

theorem C2_boundary_faces_zero:
  "(shape (s cellValues) 8 8 \<and> shape (s horizontalArrows) 8 9 \<and> shape (s verticalArrows) 9 8 \<longrightarrow>
      (\<exists>s'. CalculateVelocities cellValues horizontalArrows verticalArrows s = Some s' \<and>
         boundary_zero s' horizontalArrows verticalArrows)) \<and>
   (advect_shapes horizontalArrows horizontalArrowsTemp verticalArrows verticalArrowsTemp s \<and>
    bounded_entries (s horizontalArrows) (10 ^ 300) \<and> bounded_entries (s verticalArrows) (10 ^ 300) \<and>
    boundary_zero s horizontalArrows verticalArrows \<longrightarrow>
      (\<exists>s'. AdvectVelocities horizontalArrows horizontalArrowsTemp verticalArrows verticalArrowsTemp s = Some s' \<and>
         boundary_zero s' horizontalArrows verticalArrows))"
proof (intro conjI impI)
  assume sh: "shape (s cellValues) 8 8 \<and> shape (s horizontalArrows) 8 9 \<and> shape (s verticalArrows) 9 8"
  then have shs: "shape (s cellValues) 8 8" "shape (s horizontalArrows) 8 9" "shape (s verticalArrows) 9 8"
    by simp_all
  have ne: "horizontalArrows \<noteq> verticalArrows"
    using shape_neq_rows [where s = s, OF shs(2,3)] by simp
  let ?s' = "s(verticalArrows := tab 9 8 (projectV (s cellValues) (s verticalArrows)),
               horizontalArrows := tab 8 9 (projectH (s cellValues) (s horizontalArrows)))"
  have "boundary_zero ?s' horizontalArrows verticalArrows"
    using ne
    by (intro boundary_zero_tab [where H = "projectH (s cellValues) (s horizontalArrows)"
          and V = "projectV (s cellValues) (s verticalArrows)"])
       (simp_all add: projectH_def projectV_def)
  then show "\<exists>s'. CalculateVelocities cellValues horizontalArrows verticalArrows s = Some s' \<and>
            boundary_zero s' horizontalArrows verticalArrows"
    unfolding CalculateVelocities_eq [where s = s, OF shs] by blast
next
  assume "advect_shapes horizontalArrows horizontalArrowsTemp verticalArrows verticalArrowsTemp s \<and>
    bounded_entries (s horizontalArrows) (10 ^ 300) \<and> bounded_entries (s verticalArrows) (10 ^ 300) \<and>
    boundary_zero s horizontalArrows verticalArrows"
  then show "\<exists>s'. AdvectVelocities horizontalArrows horizontalArrowsTemp verticalArrows verticalArrowsTemp s = Some s' \<and>
         boundary_zero s' horizontalArrows verticalArrows"
    by (intro AdvectVelocities_walls) simp_all
qed

theorem C2_boundary_faces_zero_witness:
  "(\<exists>s'. CalculateVelocities 0 1 2 edge_store = Some s' \<and> boundary_zero s' 1 2) \<and>
   (\<exists>s'. AdvectVelocities 1 3 2 4 demo_store = Some s' \<and> boundary_zero s' 1 2) \<and>
   (\<exists>s'. AdvectVelocities 1 1 2 2 demo_store = Some s' \<and> boundary_zero s' 1 2)"
proof -
  have e: "shape (edge_store 0) 8 8 \<and> shape (edge_store 1) 8 9 \<and> shape (edge_store 2) 9 8"
    using edge_store_shape by simp
  have d: "advect_shapes 1 3 2 4 demo_store \<and>
    bounded_entries (demo_store 1) (10 ^ 300) \<and> bounded_entries (demo_store 2) (10 ^ 300) \<and>
    boundary_zero demo_store 1 2"
    using demo_store_shape demo_store_bounded demo_store_boundary by (simp add: advect_shapes_def)
  have d': "advect_shapes 1 1 2 2 demo_store \<and>
    bounded_entries (demo_store 1) (10 ^ 300) \<and> bounded_entries (demo_store 2) (10 ^ 300) \<and>
    boundary_zero demo_store 1 2"
    using demo_store_shape demo_store_bounded demo_store_boundary by (simp add: advect_shapes_def)
  from C2_boundary_faces_zero [of edge_store 0 1 2] e
    C2_boundary_faces_zero [of demo_store _ 1 2 3 4] d
    C2_boundary_faces_zero [of demo_store _ 1 2 1 2] d'
  show ?thesis by blast
qed

text \<open>
  The advection step does not zero the boundary by itself: a uniform flow to the right
  comes out of \<^verbatim>\<open>AdvectVelocities\<close> with \<open>hVel[0][0] = 1\<close>.
\<close>

theorem C2_advection_keeps_moving_walls:
  "\<exists>s'. AdvectVelocities 1 3 2 4 uniform_store = Some s' \<and>
     load s' 1 0 0 = Some 1 \<and> \<not> boundary_zero s' 1 2"
proof -
  let ?s' = "uniform_store(4 := replicate 9 (replicate 8 0), 3 := replicate 8 (replicate 9 1))"
  have a: "AdvectVelocities 1 3 2 4 uniform_store = Some ?s'"
    by (rule AdvectVelocities_uniform [where s = uniform_store, OF uniform_store_cells(2)
          uniform_store_cells(3) all_cells_shape [OF uniform_store_cells(4)]
          all_cells_shape [OF uniform_store_cells(5)]])
  have "all_cells (?s' 1) 8 9 1"
    using uniform_store_cells(2) by simp
  then have l: "load ?s' 1 0 0 = Some 1"
    by (rule load_uniform) simp_all
  then have "\<not> boundary_zero ?s' 1 2"
    unfolding boundary_zero_def by (auto dest: bspec [where x = 0])
  with a l show ?thesis by blast
qed

text \<open>
  C3. The projection step \<^verbatim>\<open>CalculateVelocities\<close>, with \<open>k = dt / density = 0.016 / 0.6\<close>,
  replaces every vertical-velocity sample off the top and bottom boundary by
  \<open>vVel[row][col] - k * (pressure[row][col] - pressure[row-1][col])\<close> and sets the rows
  \<open>0\<close> and \<open>8\<close> to \<open>0\<close>; it replaces every horizontal-velocity sample off the left and
  right boundary by \<open>hVel[row][col] - k * (pressure[row][col] - pressure[row][col-1])\<close>
  and sets the columns \<open>0\<close> and \<open>8\<close> to \<open>0\<close>; the pressure array is left unchanged.
\<close>

theorem C3_CalculateVelocities_projection:
  assumes "shape (s cellValues) 8 8"
    and "shape (s horizontalArrows) 8 9"
    and "shape (s verticalArrows) 9 8"
  shows "\<exists>s'. CalculateVelocities cellValues horizontalArrows verticalArrows s = Some s' \<and>
     s' cellValues = s cellValues \<and>
     (\<forall>row col. 0 \<le> row \<and> row \<le> 8 \<and> 0 \<le> col \<and> col \<le> 7 \<longrightarrow>
        load s' verticalArrows row col =
          Some (if row = 0 \<or> row = 8 then 0
                else cell (s verticalArrows) row col -
                     0.016 / 0.6 * (cell (s cellValues) row col - cell (s cellValues) (row - 1) col))) \<and>
     (\<forall>row col. 0 \<le> row \<and> row \<le> 7 \<and> 0 \<le> col \<and> col \<le> 8 \<longrightarrow>
        load s' horizontalArrows row col =
          Some (if col = 0 \<or> col = 8 then 0
                else cell (s horizontalArrows) row col -
                     0.016 / 0.6 * (cell (s cellValues) row col - cell (s cellValues) row (col - 1))))"
proof -
  have ne: "cellValues \<noteq> horizontalArrows" "cellValues \<noteq> verticalArrows"
    "horizontalArrows \<noteq> verticalArrows"
    using assms by (auto dest: shape_neq_rows shape_neq_cols)
  show ?thesis
    unfolding CalculateVelocities_eq [OF assms]
    using ne by (simp add: load_tab projectV_def projectH_def DELTA_TIME_def DENSITY_def)
qed

theorem C3_CalculateVelocities_projection_witness:
  "\<exists>s'. CalculateVelocities 0 1 2 demo_store = Some s' \<and> s' 0 = demo_store 0 \<and>
     load s' 2 0 3 = Some 0 \<and> load s' 1 5 8 = Some 0"
proof -
  from C3_CalculateVelocities_projection [OF demo_store_shape(1) demo_store_shape(2) demo_store_shape(3)]
  obtain s' where "CalculateVelocities 0 1 2 demo_store = Some s'" "s' 0 = demo_store 0"
    and v: "\<forall>row col. 0 \<le> row \<and> row \<le> 8 \<and> 0 \<le> col \<and> col \<le> 7 \<longrightarrow>
        load s' 2 row col =
          Some (if row = 0 \<or> row = 8 then 0
                else cell (demo_store 2) row col -
                     0.016 / 0.6 * (cell (demo_store 0) row col - cell (demo_store 0) (row - 1) col))"
    and h: "\<forall>row col. 0 \<le> row \<and> row \<le> 7 \<and> 0 \<le> col \<and> col \<le> 8 \<longrightarrow>
        load s' 1 row col =
          Some (if col = 0 \<or> col = 8 then 0
                else cell (demo_store 1) row col -
                     0.016 / 0.6 * (cell (demo_store 0) row col - cell (demo_store 0) row (col - 1)))"
    by blast
  moreover from v have "load s' 2 0 3 = Some 0" by simp
  moreover from h have "load s' 1 5 8 = Some 0" by simp
  ultimately show ?thesis by blast
qed

text \<open>
  C4. \<^verbatim>\<open>SolvePressureRedBlack\<close> relaxes the class of the cells with \<open>(row + col)\<close> even
  completely before the class with \<open>(row + col)\<close> odd: its result is the update of all
  even cells from the pressures before the sweep, followed by the update of all odd cells
  from the pressures after the first half. The value \<^verbatim>\<open>CalculatePressure\<close> stores in a
  cell depends on the pressure array only through cells of the other colour. And there is
  an input (all zero but for one horizontal velocity sample) on which the result differs
  from the simultaneous update \<open>JacobiSweep\<close> of every cell from the pressures before the
  sweep.
\<close>

theorem C4_red_black_ordering:
  assumes "shape (s cellValues) 8 8"
    and "shape (s horizontalArrows) 8 9"
    and "shape (s verticalArrows) 9 8"
  shows "SolvePressureRedBlack cellValues horizontalArrows verticalArrows s =
           Some (s(cellValues := tab 8 8
             (relax_class 1
               (relax_class 0 (cell (s cellValues)) (cell (s horizontalArrows)) (cell (s verticalArrows)))
               (cell (s horizontalArrows)) (cell (s verticalArrows))))) \<and>
         (\<forall>t row col.
            0 \<le> row \<and> row < 8 \<and> 0 \<le> col \<and> col < 8 \<and>
            shape (t cellValues) 8 8 \<and> t horizontalArrows = s horizontalArrows \<and>
            t verticalArrows = s verticalArrows \<and>
            (\<forall>i j. 0 \<le> i \<and> i < 8 \<and> 0 \<le> j \<and> j < 8 \<and> (i + j) AND 1 \<noteq> (row + col) AND 1 \<longrightarrow>
               load t cellValues i j = load s cellValues i j) \<longrightarrow>
            CalculatePressure cellValues horizontalArrows verticalArrows row col t
              \<bind> (\<lambda>t'. load t' cellValues row col) =
            CalculatePressure cellValues horizontalArrows verticalArrows row col s
              \<bind> (\<lambda>s'. load s' cellValues row col)) \<and>
         (\<exists>s0. shape (s0 cellValues) 8 8 \<and> shape (s0 horizontalArrows) 8 9 \<and>
            shape (s0 verticalArrows) 9 8 \<and>
            SolvePressureRedBlack cellValues horizontalArrows verticalArrows s0 \<noteq>
              Some (s0(cellValues :=
                JacobiSweep (s0 cellValues) (s0 horizontalArrows) (s0 verticalArrows))))"
proof (intro conjI allI impI)
  show "SolvePressureRedBlack cellValues horizontalArrows verticalArrows s =
           Some (s(cellValues := tab 8 8
             (relax_class 1
               (relax_class 0 (cell (s cellValues)) (cell (s horizontalArrows)) (cell (s verticalArrows)))
               (cell (s horizontalArrows)) (cell (s verticalArrows)))))"
    using assms by (rule SolvePressureRedBlack_eq)
next
  fix t row col
  assume a: "0 \<le> row \<and> row < 8 \<and> 0 \<le> col \<and> col < 8 \<and>
            shape (t cellValues) 8 8 \<and> t horizontalArrows = s horizontalArrows \<and>
            t verticalArrows = s verticalArrows \<and>
            (\<forall>i j. 0 \<le> i \<and> i < 8 \<and> 0 \<le> j \<and> j < 8 \<and> (i + j) AND 1 \<noteq> (row + col) AND 1 \<longrightarrow>
               load t cellValues i j = load s cellValues i j)"
  then have rc: "0 \<le> row" "row < 8" "0 \<le> col" "col < 8"
    and sht: "shape (t cellValues) 8 8" "shape (t horizontalArrows) 8 9" "shape (t verticalArrows) 9 8"
    and eq: "t horizontalArrows = s horizontalArrows" "t verticalArrows = s verticalArrows"
    using assms by simp_all
  have "stored_pressure (cell (t cellValues)) (cell (s horizontalArrows)) (cell (s verticalArrows)) row col =
        stored_pressure (cell (s cellValues)) (cell (s horizontalArrows)) (cell (s verticalArrows)) row col"
  proof (rule stored_pressure_opposite_colour [OF _ rc])
    fix i' j' :: int
    assume ij: "0 \<le> i'" "i' < 8" "0 \<le> j'" "j' < 8" "(i' + j') AND 1 \<noteq> (row + col) AND 1"
    with a have "load t cellValues i' j' = load s cellValues i' j'"
      by blast
    then show "cell (t cellValues) i' j' = cell (s cellValues) i' j'"
      using ij by (simp add: load_shape [where s = t and r = cellValues, OF sht(1)]
          load_shape [where s = s and r = cellValues, OF assms(1)])
  qed
  then show "CalculatePressure cellValues horizontalArrows verticalArrows row col t
              \<bind> (\<lambda>t'. load t' cellValues row col) =
            CalculatePressure cellValues horizontalArrows verticalArrows row col s
              \<bind> (\<lambda>s'. load s' cellValues row col)"
    unfolding CalculatePressure_value [where s = t, OF sht rc]
      CalculatePressure_value [where s = s, OF assms rc] eq
    by simp
next
  have ne: "cellValues \<noteq> horizontalArrows" "cellValues \<noteq> verticalArrows"
    "horizontalArrows \<noteq> verticalArrows"
    using shape_neq_cols [where s = s, OF assms(1,2)] shape_neq_rows [where s = s, OF assms(1,3)]
      shape_neq_rows [where s = s, OF assms(2,3)] by simp_all
  define s0 where "s0 = s(cellValues := replicate 8 (replicate 8 0),
               horizontalArrows := tab 8 9 (\<lambda>i j. if i = 4 \<and> j = 4 then 1 else 0),
               verticalArrows := replicate 9 (replicate 8 0))"
  let ?P = "relax_class 1 (relax_class 0 (\<lambda>_ _. 0) (one_face 4 4 1) (\<lambda>_ _. 0))
              (one_face 4 4 1) (\<lambda>_ _. 0)"
  let ?J = "JacobiSweep (s0 cellValues) (s0 horizontalArrows) (s0 verticalArrows)"
  have c: "s0 cellValues = replicate 8 (replicate 8 0)"
    "s0 horizontalArrows = tab 8 9 (\<lambda>i j. if i = 4 \<and> j = 4 then 1 else 0)"
    "s0 verticalArrows = replicate 9 (replicate 8 0)"
    using ne by (simp_all add: s0_def)
  have z: "all_cells (s0 cellValues) 8 8 0" "all_cells (s0 verticalArrows) 9 8 0"
    unfolding c by (rule all_cells_replicate)+
  have sh: "shape (s0 cellValues) 8 8" "shape (s0 horizontalArrows) 8 9" "shape (s0 verticalArrows) 9 8"
    unfolding c by (simp_all add: shape_tab all_cells_shape [OF all_cells_replicate])
  have rb: "SolvePressureRedBlack cellValues horizontalArrows verticalArrows s0 =
      Some (s0(cellValues := tab 8 8 ?P))"
    using c by (rule one_face_sweep_store [where s = s0])
  have h: "cell (s0 horizontalArrows) i' j' = one_face 4 4 1 i' j'"
    if "0 \<le> i'" "i' < 8" "0 \<le> j'" "j' < 9" for i' j'
    unfolding c using that by (simp add: cell_tab one_face_def)
  have "stored_pressure (cell (s0 cellValues)) (cell (s0 horizontalArrows)) (cell (s0 verticalArrows)) 4 3 =
        stored_pressure (\<lambda>_ _. 0) (one_face 4 4 1) (\<lambda>_ _. 0) 4 3"
    by (intro stored_pressure_cong3 h all_cells_cell [OF z(1)] all_cells_cell [OF z(2)]) simp_all
  then have j: "cell ?J 4 3 = - (DENSITY * DELTA_X * 1 / DELTA_TIME) / 4"
    unfolding JacobiSweep_def by (simp add: cell_tab stored_pressure_def one_face_def)
  have "?P 4 (4 - 1) =
      (if ((4::int) + 4) AND 1 = 0
       then ((if (4::int) = 1 then 0 else DENSITY * DELTA_X * 1 / DELTA_TIME / 4) -
             DENSITY * DELTA_X * 1 / DELTA_TIME) / 4
       else - (DENSITY * DELTA_X * 1 / DELTA_TIME) / 4)"
    by (rule sweep_one_face(2)) simp_all
  then have "?P 4 3 = (DENSITY * DELTA_X * 1 / DELTA_TIME / 4 - DENSITY * DELTA_X * 1 / DELTA_TIME) / 4"
    by simp
  then have "cell (tab 8 8 ?P) 4 3 =
      (DENSITY * DELTA_X * 1 / DELTA_TIME / 4 - DENSITY * DELTA_X * 1 / DELTA_TIME) / 4"
    by (simp add: cell_tab)
  then have "cell (tab 8 8 ?P) 4 3 \<noteq> cell ?J 4 3"
    unfolding j by (simp add: DENSITY_def DELTA_X_def DELTA_TIME_def)
  then have "tab 8 8 ?P \<noteq> ?J"
    by auto
  then have "s0(cellValues := tab 8 8 ?P) \<noteq> s0(cellValues := ?J)"
    by (metis fun_upd_same)
  then have "SolvePressureRedBlack cellValues horizontalArrows verticalArrows s0 \<noteq>
      Some (s0(cellValues := ?J))"
    unfolding rb by simp
  with sh show "\<exists>s0. shape (s0 cellValues) 8 8 \<and> shape (s0 horizontalArrows) 8 9 \<and>
            shape (s0 verticalArrows) 9 8 \<and>
            SolvePressureRedBlack cellValues horizontalArrows verticalArrows s0 \<noteq>
              Some (s0(cellValues :=
                JacobiSweep (s0 cellValues) (s0 horizontalArrows) (s0 verticalArrows)))"
    by blast
qed

theorem C4_red_black_ordering_witness:
  "SolvePressureRedBlack 0 1 2 demo_store =
     Some (demo_store(0 := tab 8 8
       (relax_class 1
         (relax_class 0 (cell (demo_store 0)) (cell (demo_store 1)) (cell (demo_store 2)))
         (cell (demo_store 1)) (cell (demo_store 2))))) \<and>
   (\<exists>s0. shape (s0 0) 8 8 \<and> shape (s0 1) 8 9 \<and> shape (s0 2) 9 8 \<and>
      SolvePressureRedBlack 0 1 2 s0 \<noteq> Some (s0(0 := JacobiSweep (s0 0) (s0 1) (s0 2))))"
  using C4_red_black_ordering [OF demo_store_shape(1) demo_store_shape(2) demo_store_shape(3)]
  by blast

text \<open>
  C5. When the temporary arrays are not the live arrays, \<^verbatim>\<open>AdvectVelocities\<close> never
  reads a partially updated field: it returns, and the new horizontal and vertical
  velocity arrays are the per-sample maps \<open>advect_horizontal\<close> and \<open>advect_vertical\<close> of
  the contents the two live arrays had before the call. The temporary arrays end as
  copies of the new fields, and no other array changes.
\<close>

theorem C5_AdvectVelocities_double_buffered:
  assumes "shape (s horizontalArrows) 8 9"
    and "shape (s horizontalArrowsTemp) 8 9"
    and "shape (s verticalArrows) 9 8"
    and "shape (s verticalArrowsTemp) 9 8"
    and "horizontalArrowsTemp \<noteq> horizontalArrows"
    and "verticalArrowsTemp \<noteq> verticalArrows"
  shows "\<exists>s'. AdvectVelocities horizontalArrows horizontalArrowsTemp verticalArrows verticalArrowsTemp s = Some s' \<and>
     s' horizontalArrows = tab 8 9 (advect_horizontal (s horizontalArrows) (s verticalArrows)) \<and>
     s' verticalArrows = tab 9 8 (advect_vertical (s horizontalArrows) (s verticalArrows)) \<and>
     s' horizontalArrowsTemp = s' horizontalArrows \<and>
     s' verticalArrowsTemp = s' verticalArrows \<and>
     (\<forall>r. r \<notin> {horizontalArrows, horizontalArrowsTemp, verticalArrows, verticalArrowsTemp} \<longrightarrow> s' r = s r)"
proof -
  have ne: "horizontalArrows \<noteq> verticalArrows" "horizontalArrows \<noteq> verticalArrowsTemp"
    "horizontalArrowsTemp \<noteq> verticalArrows" "horizontalArrowsTemp \<noteq> verticalArrowsTemp"
    using assms by (auto dest: shape_neq_rows)
  show ?thesis
    unfolding AdvectVelocities_eq [OF assms]
    using ne assms(5,6) by simp
qed

theorem C5_AdvectVelocities_double_buffered_witness:
  "\<exists>s'. AdvectVelocities 1 3 2 4 demo_store = Some s' \<and>
     s' 1 = tab 8 9 (advect_horizontal (demo_store 1) (demo_store 2)) \<and>
     s' 2 = tab 9 8 (advect_vertical (demo_store 1) (demo_store 2))"
proof -
  have "(3::nat) \<noteq> 1" "(4::nat) \<noteq> 2" by simp_all
  from C5_AdvectVelocities_double_buffered
    [OF demo_store_shape(2) demo_store_shape(4) demo_store_shape(3) demo_store_shape(5) this]
  show ?thesis by blast
qed

text \<open>
  C6. Starting from all-zero pressure, horizontal-velocity and vertical-velocity arrays,
  one full tick (\<^verbatim>\<open>AdvectVelocities\<close>, then \<^verbatim>\<open>SolvePressureRedBlack\<close>, then the
  numeric part of \<^verbatim>\<open>CalculateVelocities\<close>) returns and leaves all three arrays zero.
\<close>

theorem C6_zero_state_fixed_point:
  assumes "s cellValues = replicate 8 (replicate 8 0)"
    and "s horizontalArrows = replicate 8 (replicate 9 0)"
    and "s verticalArrows = replicate 9 (replicate 8 0)"
    and "shape (s horizontalArrowsTemp) 8 9"
    and "shape (s verticalArrowsTemp) 9 8"
  shows "\<exists>s'. do {
             s1 \<leftarrow> AdvectVelocities horizontalArrows horizontalArrowsTemp verticalArrows verticalArrowsTemp s;
             s2 \<leftarrow> SolvePressureRedBlack cellValues horizontalArrows verticalArrows s1;
             CalculateVelocities cellValues horizontalArrows verticalArrows s2
           } = Some s' \<and>
     s' cellValues = replicate 8 (replicate 8 0) \<and>
     s' horizontalArrows = replicate 8 (replicate 9 0) \<and>
     s' verticalArrows = replicate 9 (replicate 8 0)"
proof -
  have p: "all_cells (s cellValues) 8 8 0" and h: "all_cells (s horizontalArrows) 8 9 0"
    and v: "all_cells (s verticalArrows) 9 8 0"
    using assms(1,2,3) by (simp_all add: all_cells_eq)
  have ne: "cellValues \<noteq> horizontalArrowsTemp" "cellValues \<noteq> verticalArrowsTemp"
    "horizontalArrows \<noteq> verticalArrowsTemp" "horizontalArrowsTemp \<noteq> verticalArrows"
    using shape_neq_cols [where s = s, OF all_cells_shape [OF p] assms(4)]
      shape_neq_rows [where s = s, OF all_cells_shape [OF p] assms(5)]
      shape_neq_rows [where s = s, OF all_cells_shape [OF h] assms(5)]
      shape_neq_rows [where s = s, OF assms(4) all_cells_shape [OF v]]
    by simp_all
  let ?s1 = "s(verticalArrowsTemp := replicate 9 (replicate 8 0),
               horizontalArrowsTemp := replicate 8 (replicate 9 0))"
  have a: "AdvectVelocities horizontalArrows horizontalArrowsTemp verticalArrows verticalArrowsTemp s = Some ?s1"
    by (rule AdvectVelocities_uniform [where s = s, OF h v assms(4,5)])
  have p1: "all_cells (?s1 cellValues) 8 8 0" and h1: "all_cells (?s1 horizontalArrows) 8 9 0"
    and v1: "all_cells (?s1 verticalArrows) 9 8 0"
    using p h v ne by (simp_all add: all_cells_replicate)
  have b: "SolvePressureRedBlack cellValues horizontalArrows verticalArrows ?s1 = Some ?s1"
    using p1 h1 v1 by (rule SolvePressureRedBlack_zero [where s = ?s1])
  have c: "CalculateVelocities cellValues horizontalArrows verticalArrows ?s1 = Some ?s1"
    using p1 h1 v1 by (rule CalculateVelocities_zero [where s = ?s1])
  have "?s1 cellValues = replicate 8 (replicate 8 0)"
    "?s1 horizontalArrows = replicate 8 (replicate 9 0)"
    "?s1 verticalArrows = replicate 9 (replicate 8 0)"
    using assms(1,2,3) ne by simp_all
  then show ?thesis
    by (simp only: a b c Option.bind.simps) blast
qed

theorem C6_zero_state_fixed_point_witness:
  "\<exists>s'. do {
          s1 \<leftarrow> AdvectVelocities 1 3 2 4 zero_store;
          s2 \<leftarrow> SolvePressureRedBlack 0 1 2 s1;
          CalculateVelocities 0 1 2 s2
        } = Some s' \<and>
     s' 0 = replicate 8 (replicate 8 0) \<and>
     s' 1 = replicate 8 (replicate 9 0) \<and>
     s' 2 = replicate 9 (replicate 8 0)"
proof -
  have "zero_store 0 = replicate 8 (replicate 8 0)" "zero_store 1 = replicate 8 (replicate 9 0)"
    "zero_store 2 = replicate 9 (replicate 8 0)"
    "shape (zero_store 3) 8 9" "shape (zero_store 4) 9 8"
    by (simp_all add: zero_store_def shape_def)
  from C6_zero_state_fixed_point [where s = zero_store, OF this]
  show ?thesis .
qed

text \<open>
  C7 (amended). When the grid is all zero but for one interior horizontal velocity sample
  \<open>hVel[r][c]\<close> (\<open>0 < c < 8\<close>) with a positive value of at most \<open>10^306\<close> (so that
  \<open>density * dx * x / dt\<close>, which is \<open>37.5 x\<close>, does not overflow), then after one call of
  \<^verbatim>\<open>SolvePressureRedBlack\<close> the two cells next to that face hold pressures of opposite
  sign: the cell \<open>(r, c - 1)\<close> a negative one, the cell \<open>(r, c)\<close> a positive one.
\<close>

theorem C7_single_face_divergence_response:
  assumes "s cellValues = replicate 8 (replicate 8 0)"
    and "s horizontalArrows = tab 8 9 (\<lambda>i j. if i = r \<and> j = c then x else 0)"
    and "s verticalArrows = replicate 9 (replicate 8 0)"
    and "0 \<le> r" "r \<le> 7" "0 < c" "c \<le> 7" "0 < x" "x \<le> 10 ^ 306"
  shows "\<exists>s' pl pr. SolvePressureRedBlack cellValues horizontalArrows verticalArrows s = Some s' \<and>
     load s' cellValues r (c - 1) = Some pl \<and> load s' cellValues r c = Some pr \<and>
     pl < 0 \<and> 0 < pr"
proof -
  let ?P = "relax_class 1 (relax_class 0 (\<lambda>_ _. 0) (one_face r c x) (\<lambda>_ _. 0))
              (one_face r c x) (\<lambda>_ _. 0)"
  let ?s' = "s(cellValues := tab 8 8 ?P)"
  have a: "SolvePressureRedBlack cellValues horizontalArrows verticalArrows s = Some ?s'"
    using assms(1,2,3) by (rule one_face_sweep_store)
  have l: "load ?s' cellValues r (c - 1) = Some (?P r (c - 1))" "load ?s' cellValues r c = Some (?P r c)"
    using assms(4-7) by (simp_all add: load_tab)
  define K where "K = DENSITY * DELTA_X * x / DELTA_TIME"
  have K: "0 < K"
    using assms(8) by (simp add: K_def DENSITY_def DELTA_X_def DELTA_TIME_def)
  have "?P r (c - 1) = (if (r + c) AND 1 = 0 then ((if c = 1 then 0 else K / 4) - K) / 4 else - K / 4)"
    unfolding K_def by (rule sweep_one_face(2) [OF assms(6,7)])
  then have "?P r (c - 1) < 0"
    using K by (simp split: if_splits)
  moreover have "?P r c = (if (r + c) AND 1 = 0 then K / 4 else ((if c = 7 then 0 else - K / 4) + K) / 4)"
    unfolding K_def by (rule sweep_one_face(1) [OF assms(6,7)])
  then have "0 < ?P r c"
    using K by (simp split: if_splits)
  ultimately show ?thesis
    using a l by blast
qed

theorem C7_single_face_divergence_response_witness:
  "\<exists>s' pl pr. SolvePressureRedBlack 0 1 2 demo_store = Some s' \<and>
     load s' 0 4 3 = Some pl \<and> load s' 0 4 4 = Some pr \<and> pl < 0 \<and> 0 < pr"
proof -
  have "demo_store 0 = replicate 8 (replicate 8 0)"
    "demo_store 1 = tab 8 9 (\<lambda>i j. if i = 4 \<and> j = 4 then 1 else 0)"
    "demo_store 2 = replicate 9 (replicate 8 0)"
    by (simp_all add: demo_store_def tab_const)
  from C7_single_face_divergence_response [where s = demo_store and r = 4 and c = 4 and x = 1, OF this]
  show ?thesis by simp
qed

text \<open>
  With the value \<open>10^308\<close> in the sample \<open>hVel[4][4]\<close> the product overflows: the cell
  \<open>(4, 4)\<close> comes out of the sweep as \<^verbatim>\<open>Infinity\<close> and the cell \<open>(4, 3)\<close>, which is
  relaxed after it and subtracts an infinity from that one, as \<^verbatim>\<open>NaN\<close>, which has no sign.
\<close>

theorem C7_overflowing_face:
  "\<exists>s'. SolvePressureRedBlack_double 0 1 2 huge_face_store = Some s' \<and>
     load s' 0 4 4 = Some PosInf \<and> load s' 0 4 3 = Some NaN"
  unfolding huge_face_sweep using huge_face_cells by (simp add: load_tab)

text \<open>
  C8. For every spatially uniform velocity field (every horizontal sample \<open>a\<close>, the
  boundary included, every vertical sample \<open>b\<close>), \<^verbatim>\<open>AdvectVelocities\<close> returns and
  leaves both arrays unchanged, whether or not the temporary arrays are the live ones.
\<close>

theorem C8_AdvectVelocities_uniform_field:
  assumes "s horizontalArrows = replicate 8 (replicate 9 a)"
    and "s verticalArrows = replicate 9 (replicate 8 b)"
    and "shape (s horizontalArrowsTemp) 8 9"
    and "shape (s verticalArrowsTemp) 9 8"
  shows "\<exists>s'. AdvectVelocities horizontalArrows horizontalArrowsTemp verticalArrows verticalArrowsTemp s = Some s' \<and>
     s' horizontalArrows = s horizontalArrows \<and> s' verticalArrows = s verticalArrows"
proof -
  have h: "all_cells (s horizontalArrows) 8 9 a" and v: "all_cells (s verticalArrows) 9 8 b"
    using assms(1,2) by (simp_all add: all_cells_eq)
  have ne: "horizontalArrows \<noteq> verticalArrowsTemp" "horizontalArrowsTemp \<noteq> verticalArrows"
    using assms(3,4) all_cells_shape [OF h] all_cells_shape [OF v] by (auto dest: shape_neq_rows)
  show ?thesis
    unfolding AdvectVelocities_uniform [where s = s, OF h v assms(3,4)]
    using assms(1,2) ne by simp
qed

theorem C8_AdvectVelocities_uniform_field_witness:
  "\<exists>s'. AdvectVelocities 1 3 2 4 uniform_store = Some s' \<and>
     s' 1 = uniform_store 1 \<and> s' 2 = uniform_store 2"
proof -
  have "uniform_store 1 = replicate 8 (replicate 9 1)" "uniform_store 2 = replicate 9 (replicate 8 0)"
    by (simp_all add: uniform_store_def)
  from C8_AdvectVelocities_uniform_field [where s = uniform_store, OF this
      all_cells_shape [OF uniform_store_cells(4)] all_cells_shape [OF uniform_store_cells(5)]]
  show ?thesis .
qed

text \<open>
  C9. For every input state, \<^verbatim>\<open>SolvePressureRedBlack\<close> mutates only the pressure
  array: it returns, and afterwards the horizontal-velocity and the vertical-velocity
  arrays (and every other array of the store) are what they were before the call.
\<close>

theorem C9_SolvePressureRedBlack_frame:
  assumes "shape (s cellValues) 8 8"
    and "shape (s horizontalArrows) 8 9"
    and "shape (s verticalArrows) 9 8"
  shows "\<exists>s'. SolvePressureRedBlack cellValues horizontalArrows verticalArrows s = Some s' \<and>
           s' horizontalArrows = s horizontalArrows \<and>
           s' verticalArrows = s verticalArrows \<and>
           (\<forall>r. r \<noteq> cellValues \<longrightarrow> s' r = s r)"
proof -
  have "cellValues \<noteq> horizontalArrows" "cellValues \<noteq> verticalArrows"
    using assms by (auto dest: shape_neq_rows shape_neq_cols)
  then show ?thesis
    by (simp add: SolvePressureRedBlack_eq [OF assms])
qed

theorem C9_SolvePressureRedBlack_frame_witness:
  "\<exists>s'. SolvePressureRedBlack 0 1 2 demo_store = Some s' \<and>
         s' 1 = demo_store 1 \<and> s' 2 = demo_store 2"
  using C9_SolvePressureRedBlack_frame [OF demo_store_shape(1) demo_store_shape(2) demo_store_shape(3)]
  by blast

text \<open>
  C10 (amended). For every real sample position, \<^verbatim>\<open>GetVelocityXAtLocalPos\<close> reads
  \<^verbatim>\<open>horizontalArrows\<close> only at rows \<open>0..7\<close> and columns \<open>0..8\<close>, and
  \<^verbatim>\<open>GetVelocityYAtLocalPos\<close> reads \<^verbatim>\<open>verticalArrows\<close> only at rows \<open>0..8\<close> and
  columns \<open>0..7\<close>; so on arrays of the widget's shapes both samplers return a number at
  every such position. \<^verbatim>\<open>AdvectVelocities\<close> returns a store when, in addition, no
  velocity exceeds \<open>10^300\<close> in magnitude, so that every sampled velocity, and with it
  every backtracked position, is a real number.
\<close>

theorem C10_samplers_stay_in_bounds:
  assumes "shape (s horizontalArrows) 8 9"
    and "shape (s horizontalArrowsTemp) 8 9"
    and "shape (s verticalArrows) 9 8"
    and "shape (s verticalArrowsTemp) 9 8"
  shows "(\<forall>localPos. case GetVelocityXAtLocalPos_indices localPos of
            (l, r, b, t) \<Rightarrow> 0 \<le> b \<and> b \<le> 7 \<and> 0 \<le> t \<and> t \<le> 7 \<and> 0 \<le> l \<and> l \<le> 8 \<and> 0 \<le> r \<and> r \<le> 8) \<and>
         (\<forall>localPos. case GetVelocityYAtLocalPos_indices localPos of
            (l, r, b, t) \<Rightarrow> 0 \<le> b \<and> b \<le> 8 \<and> 0 \<le> t \<and> t \<le> 8 \<and> 0 \<le> l \<and> l \<le> 7 \<and> 0 \<le> r \<and> r \<le> 7) \<and>
         (\<forall>localPos. \<exists>x. GetVelocityXAtLocalPos localPos horizontalArrows s = Some x) \<and>
         (\<forall>localPos. \<exists>y. GetVelocityYAtLocalPos localPos verticalArrows s = Some y) \<and>
         (bounded_entries (s horizontalArrows) (10 ^ 300) \<and> bounded_entries (s verticalArrows) (10 ^ 300) \<longrightarrow>
           (\<exists>s'. AdvectVelocities horizontalArrows horizontalArrowsTemp verticalArrows verticalArrowsTemp s = Some s'))"
proof (intro conjI allI impI)
  fix localPos :: "real \<times> real"
  show "case GetVelocityXAtLocalPos_indices localPos of
            (l, r, b, t) \<Rightarrow> 0 \<le> b \<and> b \<le> 7 \<and> 0 \<le> t \<and> t \<le> 7 \<and> 0 \<le> l \<and> l \<le> 8 \<and> 0 \<le> r \<and> r \<le> 8"
    using X_indices_range [of localPos] by (simp add: case_prod_beta)
  show "case GetVelocityYAtLocalPos_indices localPos of
            (l, r, b, t) \<Rightarrow> 0 \<le> b \<and> b \<le> 8 \<and> 0 \<le> t \<and> t \<le> 8 \<and> 0 \<le> l \<and> l \<le> 7 \<and> 0 \<le> r \<and> r \<le> 7"
    using Y_indices_range [of localPos] by (simp add: case_prod_beta)
  show "\<exists>x. GetVelocityXAtLocalPos localPos horizontalArrows s = Some x"
    using GetVelocityXAtLocalPos_eq [where s = s and ha = horizontalArrows, OF assms(1)] by blast
  show "\<exists>y. GetVelocityYAtLocalPos localPos verticalArrows s = Some y"
    using GetVelocityYAtLocalPos_eq [where s = s and va = verticalArrows, OF assms(3)] by blast
next
  have "advect_shapes horizontalArrows horizontalArrowsTemp verticalArrows verticalArrowsTemp s"
    using assms by (simp add: advect_shapes_def)
  then show "\<exists>s'. AdvectVelocities horizontalArrows horizontalArrowsTemp verticalArrows verticalArrowsTemp s = Some s'"
    by (rule AdvectVelocities_total)
qed

theorem C10_samplers_stay_in_bounds_witness:
  "(\<exists>x. GetVelocityXAtLocalPos (- 3, 100) 1 demo_store = Some x) \<and>
   (\<exists>y. GetVelocityYAtLocalPos (- 3, 100) 2 demo_store = Some y) \<and>
   (\<exists>s'. AdvectVelocities 1 3 2 4 demo_store = Some s')"
  using C10_samplers_stay_in_bounds
    [OF demo_store_shape(2) demo_store_shape(4) demo_store_shape(3) demo_store_shape(5)]
    demo_store_bounded
  by blast

text \<open>
  Without the bound the advection step faults. With the vertical velocities \<open>10^308\<close> in
  \<open>vVel[4][4]\<close> and \<open>- 10^308\<close> in \<open>vVel[5][4]\<close>, the interpolation between the two at the
  sample \<open>(4, 4)\<close> overflows to \<^verbatim>\<open>NaN\<close>, the backtracked position is \<^verbatim>\<open>NaN\<close>, the row
  index computed from it is \<^verbatim>\<open>NaN\<close>, and \<^verbatim>\<open>verticalArrows[NaN][4]\<close> throws.
\<close>

theorem C10_overflowing_advection:
  "AdvectVelocities_double 1 3 2 4 huge_shear_store = None"
  by (rule huge_shear_fault)

end
